theory Spec2Isabelle
  imports Main "HOL-Library.Word" "HOL-Library.Multiset"
begin

unbundle bit_operations_syntax

section \<open>JavaScript strings\<close>

text \<open>
  A JavaScript string is a sequence of 16-bit code units. The relational operator
  \<^verbatim>\<open><\<close> on two strings compares them code unit by code unit; a proper prefix is
  smaller than the longer string.
\<close>

type_synonym cu = "16 word"
type_synonym jsstring = "cu list"
type_synonym byte = "8 word"

definition js :: "string \<Rightarrow> jsstring" where
  "js s = map (\<lambda>c. of_char c) s"

fun str_lt :: "jsstring \<Rightarrow> jsstring \<Rightarrow> bool" where
  "str_lt [] [] = False"
| "str_lt [] (y # ys) = True"
| "str_lt (x # xs) [] = False"
| "str_lt (x # xs) (y # ys) = (if x = y then str_lt xs ys else x < y)"

section \<open>Buffers and their encodings\<close>

text \<open>
  A \<^verbatim>\<open>Buffer\<close> is a sequence of bytes. The conversions between strings and buffers are
  written on the numeric values of code units and bytes, and wrapped with \<open>unat\<close> and
  \<open>of_nat\<close>.
\<close>

subsection \<open>UTF-8 (\<^verbatim>\<open>Buffer.from(s)\<close>, \<^verbatim>\<open>update(text, 'utf8')\<close>, \<^verbatim>\<open>toString('utf8')\<close>)\<close>

text \<open>
  Encoding a string: a code unit outside the surrogate range is a code point of its own;
  a high surrogate followed by a low surrogate is one code point above \<open>0xFFFF\<close>; any
  other surrogate is unpaired and is written as the replacement character \<open>U+FFFD\<close>
  (bytes \<open>EF BF BD\<close>).
\<close>

definition utf8_cp :: "nat \<Rightarrow> nat list" where
  "utf8_cp cp =
     (if cp < 0x80 then [cp]
      else if cp < 0x800 then [0xC0 + cp div 64, 0x80 + cp mod 64]
      else if cp < 0x10000 then
        [0xE0 + cp div 4096, 0x80 + (cp div 64) mod 64, 0x80 + cp mod 64]
      else
        [0xF0 + cp div 262144, 0x80 + (cp div 4096) mod 64,
         0x80 + (cp div 64) mod 64, 0x80 + cp mod 64])"

definition is_high :: "nat \<Rightarrow> bool" where
  "is_high c = (0xD800 \<le> c \<and> c \<le> 0xDBFF)"

definition is_low :: "nat \<Rightarrow> bool" where
  "is_low c = (0xDC00 \<le> c \<and> c \<le> 0xDFFF)"

definition pair_cp :: "nat \<Rightarrow> nat \<Rightarrow> nat" where
  "pair_cp hi lo = 0x10000 + (hi - 0xD800) * 1024 + (lo - 0xDC00)"

fun utf8_encode_units :: "nat list \<Rightarrow> nat list" where
  "utf8_encode_units [] = []"
| "utf8_encode_units [c] =
     (if is_high c \<or> is_low c then [0xEF, 0xBF, 0xBD] else utf8_cp c)"
| "utf8_encode_units (c # d # cs) =
     (if is_high c \<and> is_low d then utf8_cp (pair_cp c d) @ utf8_encode_units cs
      else if is_high c \<or> is_low c then [0xEF, 0xBF, 0xBD] @ utf8_encode_units (d # cs)
      else utf8_cp c @ utf8_encode_units (d # cs))"

definition utf8_encode :: "jsstring \<Rightarrow> byte list" where
  "utf8_encode s = map of_nat (utf8_encode_units (map unat s))"

text \<open>
  Decoding a buffer never fails: a byte sequence that is not the UTF-8 form of a code
  point is replaced by \<open>U+FFFD\<close>, one replacement for each maximal prefix of a valid
  sequence, and decoding goes on at the byte that broke the sequence. A code point above
  \<open>0xFFFF\<close> becomes a surrogate pair.
\<close>

definition is_cont :: "nat \<Rightarrow> bool" where
  "is_cont b = (0x80 \<le> b \<and> b \<le> 0xBF)"

definition second_ok :: "nat \<Rightarrow> nat \<Rightarrow> bool" where
  "second_ok b0 b1 =
     ((if b0 = 0xE0 then 0xA0 else if b0 = 0xF0 then 0x90 else 0x80) \<le> b1 \<and>
      b1 \<le> (if b0 = 0xED then 0x9F else if b0 = 0xF4 then 0x8F else 0xBF))"

definition units_of_cp :: "nat \<Rightarrow> nat list" where
  "units_of_cp cp =
     (if cp < 0x10000 then [cp]
      else [0xD800 + (cp - 0x10000) div 1024, 0xDC00 + (cp - 0x10000) mod 1024])"

fun utf8_decode_units :: "nat list \<Rightarrow> nat list" where
  "utf8_decode_units [] = []"
| "utf8_decode_units (b0 # bs) =
     (if b0 < 0x80 then b0 # utf8_decode_units bs
      else if 0xC2 \<le> b0 \<and> b0 \<le> 0xDF then
        (case bs of
           [] \<Rightarrow> [0xFFFD]
         | b1 # r1 \<Rightarrow>
             if is_cont b1 then ((b0 - 0xC0) * 64 + (b1 - 0x80)) # utf8_decode_units r1
             else 0xFFFD # utf8_decode_units bs)
      else if 0xE0 \<le> b0 \<and> b0 \<le> 0xEF then
        (case bs of
           [] \<Rightarrow> [0xFFFD]
         | b1 # r1 \<Rightarrow>
             if second_ok b0 b1 then
               (case r1 of
                  [] \<Rightarrow> [0xFFFD]
                | b2 # r2 \<Rightarrow>
                    if is_cont b2 then
                      ((b0 - 0xE0) * 4096 + (b1 - 0x80) * 64 + (b2 - 0x80)) # utf8_decode_units r2
                    else 0xFFFD # utf8_decode_units r1)
             else 0xFFFD # utf8_decode_units bs)
      else if 0xF0 \<le> b0 \<and> b0 \<le> 0xF4 then
        (case bs of
           [] \<Rightarrow> [0xFFFD]
         | b1 # r1 \<Rightarrow>
             if second_ok b0 b1 then
               (case r1 of
                  [] \<Rightarrow> [0xFFFD]
                | b2 # r2 \<Rightarrow>
                    if is_cont b2 then
                      (case r2 of
                         [] \<Rightarrow> [0xFFFD]
                       | b3 # r3 \<Rightarrow>
                           if is_cont b3 then
                             units_of_cp ((b0 - 0xF0) * 262144 + (b1 - 0x80) * 4096
                                          + (b2 - 0x80) * 64 + (b3 - 0x80))
                               @ utf8_decode_units r3
                           else 0xFFFD # utf8_decode_units r2)
                    else 0xFFFD # utf8_decode_units r1)
             else 0xFFFD # utf8_decode_units bs)
      else 0xFFFD # utf8_decode_units bs)"

definition utf8_decode :: "byte list \<Rightarrow> jsstring" where
  "utf8_decode bs = map of_nat (utf8_decode_units (map unat bs))"

text \<open>A string is well formed when it has no unpaired surrogate.\<close>

fun well_formed_units :: "nat list \<Rightarrow> bool" where
  "well_formed_units [] = True"
| "well_formed_units [c] = (\<not> is_high c \<and> \<not> is_low c)"
| "well_formed_units (c # d # cs) =
     (if is_high c then is_low d \<and> well_formed_units cs
      else \<not> is_low c \<and> well_formed_units (d # cs))"

definition isWellFormed :: "jsstring \<Rightarrow> bool" where
  "isWellFormed s = well_formed_units (map unat s)"

subsection \<open>Base64 (\<^verbatim>\<open>toString('base64')\<close>, \<^verbatim>\<open>Buffer.from(s, 'base64')\<close>)\<close>

text \<open>
  Encoding uses the standard alphabet and pads with \<^verbatim>\<open>=\<close>. Decoding is forgiving: it
  reads the low byte of every code unit, takes the standard and the URL-safe alphabet,
  skips every other byte, stops at the first \<^verbatim>\<open>=\<close>, and drops a last group that is a
  single character.
\<close>

definition b64char :: "nat \<Rightarrow> nat" where
  "b64char n =
     (if n < 26 then 65 + n
      else if n < 52 then 97 + (n - 26)
      else if n < 62 then 48 + (n - 52)
      else if n = 62 then 43
      else 47)"

fun b64_encode_bytes :: "nat list \<Rightarrow> nat list" where
  "b64_encode_bytes [] = []"
| "b64_encode_bytes [a] = [b64char (a div 4), b64char ((a mod 4) * 16), 61, 61]"
| "b64_encode_bytes [a, b] =
     [b64char (a div 4), b64char ((a mod 4) * 16 + b div 16), b64char ((b mod 16) * 4), 61]"
| "b64_encode_bytes (a # b # c # r) =
     [b64char (a div 4), b64char ((a mod 4) * 16 + b div 16),
      b64char ((b mod 16) * 4 + c div 64), b64char (c mod 64)] @ b64_encode_bytes r"

definition base64_encode :: "byte list \<Rightarrow> jsstring" where
  "base64_encode bs = map of_nat (b64_encode_bytes (map unat bs))"

definition unbase64 :: "nat \<Rightarrow> nat option" where
  "unbase64 c =
     (if 65 \<le> c \<and> c \<le> 90 then Some (c - 65)
      else if 97 \<le> c \<and> c \<le> 122 then Some (c - 97 + 26)
      else if 48 \<le> c \<and> c \<le> 57 then Some (c - 48 + 52)
      else if c = 43 \<or> c = 45 then Some 62
      else if c = 47 \<or> c = 95 then Some 63
      else None)"

fun b64_sextets :: "nat list \<Rightarrow> nat list" where
  "b64_sextets [] = []"
| "b64_sextets (c # cs) =
     (if c = 61 then []
      else (case unbase64 c of
              None \<Rightarrow> b64_sextets cs
            | Some v \<Rightarrow> v # b64_sextets cs))"

fun b64_decode_sextets :: "nat list \<Rightarrow> nat list" where
  "b64_decode_sextets (a # b # c # d # r) =
     [a * 4 + b div 16, (b mod 16) * 16 + c div 4, (c mod 4) * 64 + d] @ b64_decode_sextets r"
| "b64_decode_sextets [a, b, c] = [a * 4 + b div 16, (b mod 16) * 16 + c div 4]"
| "b64_decode_sextets [a, b] = [a * 4 + b div 16]"
| "b64_decode_sextets [a] = []"
| "b64_decode_sextets [] = []"

definition base64_decode :: "jsstring \<Rightarrow> byte list" where
  "base64_decode s =
     map of_nat (b64_decode_sextets (b64_sextets (map (\<lambda>c. unat c mod 256) s)))"

subsection \<open>\<^verbatim>\<open>Buffer.slice\<close>\<close>

text \<open>
  \<^verbatim>\<open>buf.slice(start, end)\<close>: a negative index counts from the end of the buffer, and
  both indices are then clamped to the range from 0 to the length.
\<close>

definition clamp_index :: "nat \<Rightarrow> int \<Rightarrow> nat" where
  "clamp_index len i =
     (if i < 0 then nat (max 0 (int len + i)) else min len (nat i))"

definition buf_slice :: "'a list \<Rightarrow> int \<Rightarrow> int \<Rightarrow> 'a list" where
  "buf_slice buf start stop =
     (let s = clamp_index (length buf) start; e = clamp_index (length buf) stop
      in take (e - s) (drop s buf))"

section \<open>Chat identity derivation (client, \<^verbatim>\<open>makeChatId\<close>)\<close>

text \<open>
  \<^verbatim>\<open>
  function makeChatId(a: string | number, b: string | number) {
    const aStr = String(a);
    const bStr = String(b);
    const [min, max] = aStr < bStr ? [aStr, bStr] : [bStr, aStr];
    return `chat_${min}_${max}`;
  }
  \<close>
  An argument is a string or a number. \<^verbatim>\<open>String\<close> leaves a string as it is; its
  result on a number is a function of the number alone, taken here as the parameter
  \<open>num_str\<close> over an arbitrary type of numbers.
\<close>

datatype 'n id_arg = IdStr jsstring | IdNum 'n

fun String_of :: "('n \<Rightarrow> jsstring) \<Rightarrow> 'n id_arg \<Rightarrow> jsstring" where
  "String_of num_str (IdStr s) = s"
| "String_of num_str (IdNum n) = num_str n"

definition makeChatId :: "('n \<Rightarrow> jsstring) \<Rightarrow> 'n id_arg \<Rightarrow> 'n id_arg \<Rightarrow> jsstring" where
  "makeChatId num_str a b =
     (let aStr = String_of num_str a;
          bStr = String_of num_str b;
          (mn, mx) = (if str_lt aStr bStr then (aStr, bStr) else (bStr, aStr))
      in js ''chat_'' @ mn @ js ''_'' @ mx)"

section \<open>Configuration (\<^verbatim>\<open>ENCRYPTION_KEY\<close>)\<close>

text \<open>
  \<^verbatim>\<open>
  const ENCRYPTION_KEY = (process.env.ENCRYPTION_KEY || 'dev_key_32_bytes_long_for_demo!!')
    .padEnd(32)
    .slice(0, 32);
  \<close>
  The environment variable is absent (\<open>None\<close>) or a string. \<^verbatim>\<open>||\<close> takes its right
  operand when the left one is undefined or the empty string. \<^verbatim>\<open>padEnd(32)\<close> appends
  spaces (code unit 32) up to a length of 32 code units and \<^verbatim>\<open>slice(0, 32)\<close> keeps the
  first 32 code units. Both servers compute the key in the same way, at module load, with
  no check that can fail.
\<close>

definition DEFAULT_KEY :: jsstring where
  "DEFAULT_KEY = js ''dev_key_32_bytes_long_for_demo!!''"

definition or_default :: "jsstring option \<Rightarrow> jsstring \<Rightarrow> jsstring" where
  "or_default v d = (case v of None \<Rightarrow> d | Some s \<Rightarrow> if s = [] then d else s)"

definition padEnd :: "nat \<Rightarrow> jsstring \<Rightarrow> jsstring" where
  "padEnd n s = s @ replicate (n - length s) 32"

definition slice0 :: "nat \<Rightarrow> 'a list \<Rightarrow> 'a list" where
  "slice0 n s = take n s"

definition ENCRYPTION_KEY :: "jsstring option \<Rightarrow> jsstring" where
  "ENCRYPTION_KEY env = slice0 32 (padEnd 32 (or_default env DEFAULT_KEY))"

section \<open>Fan-out hub (\<^verbatim>\<open>subs\<close>, \<^verbatim>\<open>broadcastToChat\<close>, the connection handler)\<close>

subsection \<open>JavaScript values, \<^verbatim>\<open>Set\<close> and \<^verbatim>\<open>Map\<close>\<close>

text \<open>
  The values that \<^verbatim>\<open>JSON.parse\<close> gives to a property of a frame or of a request
  body; numbers are integers here. \<open>JObject\<close> is an object or an array: every call of
  \<^verbatim>\<open>JSON.parse\<close> makes a new one, so the object of one frame is the same value as no
  object of another frame or of a request. \<open>truthy\<close> is JavaScript's conversion to a
  boolean.
\<close>

datatype jval = JUndefined | JNull | JBool bool | JNum int | JStr jsstring | JObject

fun truthy :: "jval \<Rightarrow> bool" where
  "truthy JUndefined = False"
| "truthy JNull = False"
| "truthy (JBool b) = b"
| "truthy (JNum n) = (n \<noteq> 0)"
| "truthy (JStr s) = (s \<noteq> [])"
| "truthy JObject = True"

text \<open>
  A \<^verbatim>\<open>Set\<close> keeps its elements in insertion order, each value once; a \<^verbatim>\<open>Map\<close> keeps
  its entries in insertion order, each key once. \<^verbatim>\<open>set\<close> on a present key replaces the
  value in place, on a new key appends the entry. The argument of \<^verbatim>\<open>has\<close>, \<^verbatim>\<open>add\<close> and
  \<^verbatim>\<open>delete\<close> is here always a value just parsed. A string, a number or a boolean is
  found in the set when an equal one is there. An object is never found: \<^verbatim>\<open>has\<close> says
  no, \<^verbatim>\<open>delete\<close> removes nothing, and \<^verbatim>\<open>add\<close> appends it, also when objects of
  earlier frames are in the set.
\<close>

type_synonym jsset = "jval list"
type_synonym ('k, 'v) jsmap = "('k \<times> 'v) list"

definition set_has :: "jval \<Rightarrow> jsset \<Rightarrow> bool" where
  "set_has x s = (x \<noteq> JObject \<and> x \<in> set s)"

definition set_add :: "jval \<Rightarrow> jsset \<Rightarrow> jsset" where
  "set_add x s = (if set_has x s then s else s @ [x])"

definition set_delete :: "jval \<Rightarrow> jsset \<Rightarrow> jsset" where
  "set_delete x s = (if x = JObject then s else filter (\<lambda>y. y \<noteq> x) s)"

fun map_get :: "('k, 'v) jsmap \<Rightarrow> 'k \<Rightarrow> 'v option" where
  "map_get [] k = None"
| "map_get ((k', v) # m) k = (if k' = k then Some v else map_get m k)"

fun map_set :: "'k \<Rightarrow> 'v \<Rightarrow> ('k, 'v) jsmap \<Rightarrow> ('k, 'v) jsmap" where
  "map_set k v [] = [(k, v)]"
| "map_set k v ((k', v') # m) = (if k' = k then (k, v) # m else (k', v') # map_set k v m)"

definition map_delete :: "'k \<Rightarrow> ('k, 'v) jsmap \<Rightarrow> ('k, 'v) jsmap" where
  "map_delete k m = filter (\<lambda>e. fst e \<noteq> k) m"

subsection \<open>Hub state\<close>

text \<open>
  A connection is the identity of its \<^verbatim>\<open>ws\<close> object. The state holds the \<^verbatim>\<open>subs\<close>
  map, the \<^verbatim>\<open>readyState\<close> of every socket, and for every socket the frames that
  \<^verbatim>\<open>ws.send\<close> has put on the wire, oldest first. A frame is the JSON text of an
  acknowledgement or of a broadcast payload \<^verbatim>\<open>{ type: 'message', message }\<close>.
\<close>

type_synonym conn = nat

datatype ready_state = CONNECTING | OPEN | CLOSING | CLOSED

datatype 'm server_frame = Subscribed jval | Unsubscribed jval | MessageEv 'm

record 'm hub =
  subs :: "(conn, jsset) jsmap"
  readyState :: "conn \<Rightarrow> ready_state"
  outbox :: "conn \<Rightarrow> 'm server_frame list"

text \<open>
  A statement of a handler either completes (\<open>Inr\<close>, with the new state) or throws
  (\<open>Inl\<close>, with the exception and the state reached when it was thrown).
\<close>

datatype js_throw = TypeError | SendError

type_synonym 'm thrown = "js_throw \<times> 'm hub"

text \<open>
  \<^verbatim>\<open>ws.send\<close> of the \<^verbatim>\<open>ws\<close> package: it throws while the socket is connecting,
  transmits when it is open, and drops the data when it is closing or closed.
\<close>

definition ws_send :: "conn \<Rightarrow> 'm server_frame \<Rightarrow> 'm hub \<Rightarrow> 'm thrown + 'm hub" where
  "ws_send ws data h =
     (case readyState h ws of
        CONNECTING \<Rightarrow> Inl (SendError, h)
      | OPEN \<Rightarrow> Inr (h\<lparr>outbox := (outbox h)(ws := outbox h ws @ [data])\<rparr>)
      | CLOSING \<Rightarrow> Inr h
      | CLOSED \<Rightarrow> Inr h)"

subsection \<open>\<^verbatim>\<open>broadcastToChat\<close>\<close>

text \<open>
  \<^verbatim>\<open>
  function broadcastToChat(chatId, payload) {
    const msg = JSON.stringify(payload);
    for (const [ws, set] of subs.entries()) {
      if (set.has(chatId) && ws.readyState === ws.OPEN) ws.send(msg);
    }
  }
  \<close>
  The loop runs over the entries in order. The guard makes the socket open at the call of
  \<^verbatim>\<open>send\<close>, so the call does not throw; the model keeps the branch all the same, where
  the exception would leave the loop.
\<close>

fun broadcast_loop ::
  "(conn, jsset) jsmap \<Rightarrow> jval \<Rightarrow> 'm server_frame \<Rightarrow> 'm hub \<Rightarrow> 'm thrown + 'm hub" where
  "broadcast_loop [] chatId msg h = Inr h"
| "broadcast_loop ((ws, s) # es) chatId msg h =
     (if set_has chatId s \<and> readyState h ws = OPEN
      then (case ws_send ws msg h of
              Inl e \<Rightarrow> Inl e
            | Inr h' \<Rightarrow> broadcast_loop es chatId msg h')
      else broadcast_loop es chatId msg h)"

definition broadcastToChat :: "jval \<Rightarrow> 'm server_frame \<Rightarrow> 'm hub \<Rightarrow> 'm thrown + 'm hub" where
  "broadcastToChat chatId payload h = broadcast_loop (subs h) chatId payload h"

subsection \<open>The connection handler\<close>

text \<open>
  \<^verbatim>\<open>
  wss.on('connection', (ws) => {
    subs.set(ws, new Set());
    ws.on('message', (raw) => {
      try {
        const msg = JSON.parse(raw.toString());
        if (msg.type === 'subscribe' && msg.chatId) {
          subs.get(ws).add(msg.chatId);
          ws.send(JSON.stringify({ type: 'subscribed', chatId: msg.chatId }));
        }
        if (msg.type === 'unsubscribe' && msg.chatId) {
          subs.get(ws).delete(msg.chatId);
          ws.send(JSON.stringify({ type: 'unsubscribed', chatId: msg.chatId }));
        }
      } catch {
        // ignore malformed
      }
    });
    ws.on('close', () => subs.delete(ws));
  });
  \<close>
  An inbound frame either fails in \<^verbatim>\<open>JSON.parse\<close> (or parses to \<^verbatim>\<open>null\<close>, where the
  property access throws), or gives the values of \<^verbatim>\<open>msg.type\<close> and \<^verbatim>\<open>msg.chatId\<close>.
  \<^verbatim>\<open>subs.get(ws)\<close> is undefined for a socket that is not registered, and the method call
  on it throws a \<^verbatim>\<open>TypeError\<close>. Every exception inside \<^verbatim>\<open>try\<close> ends the handler
  with the state reached so far. The two \<^verbatim>\<open>if\<close> statements exclude each other, since
  \<^verbatim>\<open>msg.type\<close> is one value.
\<close>

datatype ws_in = Unparsable | Parsed jval jval

definition on_connection :: "conn \<Rightarrow> 'm hub \<Rightarrow> 'm hub" where
  "on_connection ws h = h\<lparr>subs := map_set ws [] (subs h)\<rparr>"

definition do_subscribe :: "conn \<Rightarrow> jval \<Rightarrow> 'm hub \<Rightarrow> 'm thrown + 'm hub" where
  "do_subscribe ws chatId h =
     (case map_get (subs h) ws of
        None \<Rightarrow> Inl (TypeError, h)
      | Some s \<Rightarrow> ws_send ws (Subscribed chatId) (h\<lparr>subs := map_set ws (set_add chatId s) (subs h)\<rparr>))"

definition do_unsubscribe :: "conn \<Rightarrow> jval \<Rightarrow> 'm hub \<Rightarrow> 'm thrown + 'm hub" where
  "do_unsubscribe ws chatId h =
     (case map_get (subs h) ws of
        None \<Rightarrow> Inl (TypeError, h)
      | Some s \<Rightarrow> ws_send ws (Unsubscribed chatId) (h\<lparr>subs := map_set ws (set_delete chatId s) (subs h)\<rparr>))"

definition try_catch_ignore :: "'m thrown + 'm hub \<Rightarrow> 'm hub" where
  "try_catch_ignore r = (case r of Inl (e, h) \<Rightarrow> h | Inr h \<Rightarrow> h)"

definition on_message :: "conn \<Rightarrow> ws_in \<Rightarrow> 'm hub \<Rightarrow> 'm hub" where
  "on_message ws raw h =
     (case raw of
        Unparsable \<Rightarrow> h
      | Parsed ty chatId \<Rightarrow>
          if ty = JStr (js ''subscribe'') \<and> truthy chatId then
            try_catch_ignore (do_subscribe ws chatId h)
          else if ty = JStr (js ''unsubscribe'') \<and> truthy chatId then
            try_catch_ignore (do_unsubscribe ws chatId h)
          else h)"

definition on_close :: "conn \<Rightarrow> 'm hub \<Rightarrow> 'm hub" where
  "on_close ws h = h\<lparr>subs := map_delete ws (subs h)\<rparr>"

subsection \<open>Runs of the hub\<close>

text \<open>
  What can happen to the hub, one event at a time: a socket connects, a frame arrives, a
  socket's close event fires, the transport of a socket changes its \<^verbatim>\<open>readyState\<close>,
  or the message route broadcasts (its \<^verbatim>\<open>try\<close> block catches what the broadcast
  throws).
\<close>

datatype 'm event =
    Connection conn
  | Message conn ws_in
  | Close conn
  | Transport conn ready_state
  | Broadcast jval "'m server_frame"

fun step :: "'m event \<Rightarrow> 'm hub \<Rightarrow> 'm hub" where
  "step (Connection ws) h = on_connection ws h"
| "step (Message ws raw) h = on_message ws raw h"
| "step (Close ws) h = on_close ws h"
| "step (Transport ws r) h = h\<lparr>readyState := (readyState h)(ws := r)\<rparr>"
| "step (Broadcast chatId payload) h = try_catch_ignore (broadcastToChat chatId payload h)"

fun run :: "'m event list \<Rightarrow> 'm hub \<Rightarrow> 'm hub" where
  "run [] h = h"
| "run (e # es) h = run es (step e h)"

definition init_hub :: "'m hub" where
  "init_hub = \<lparr>subs = [], readyState = (\<lambda>ws. CLOSED), outbox = (\<lambda>ws. [])\<rparr>"

definition wf_hub :: "'m hub \<Rightarrow> bool" where
  "wf_hub h = distinct (map fst (subs h))"

definition subscribed :: "'m hub \<Rightarrow> conn \<Rightarrow> jval \<Rightarrow> bool" where
  "subscribed h ws chatId =
     (case map_get (subs h) ws of None \<Rightarrow> False | Some s \<Rightarrow> set_has chatId s)"

definition outbox_after :: "'m thrown + 'm hub \<Rightarrow> conn \<Rightarrow> 'm server_frame list option" where
  "outbox_after r ws = (case r of Inl e \<Rightarrow> None | Inr h \<Rightarrow> Some (outbox h ws))"

subsection \<open>A run of the hub, for the examples\<close>

text \<open>
  Socket 3 connects and subscribes to two chats; \<open>later_events\<close> is what happens
  afterwards in the examples.
\<close>

definition chat_x :: jval where "chat_x = JStr (js ''chat_1_2'')"
definition chat_y :: jval where "chat_y = JStr (js ''chat_1_3'')"
definition chat_z :: jval where "chat_z = JStr (js ''chat_2_3'')"

definition hub_xy :: "nat hub" where
  "hub_xy = run [Transport 3 OPEN, Connection 3,
                 Message 3 (Parsed (JStr (js ''subscribe'')) chat_x),
                 Message 3 (Parsed (JStr (js ''subscribe'')) chat_y)] init_hub"

definition later_events :: "nat event list" where
  "later_events = [Broadcast chat_y (MessageEv 5),
                   Message 3 (Parsed (JStr (js ''subscribe'')) chat_z),
                   Transport 3 CLOSING, Transport 3 OPEN]"

section \<open>AES-256-GCM (\<^verbatim>\<open>createCipheriv('aes-256-gcm', ...)\<close>)\<close>

subsection \<open>The AES-256 block cipher (FIPS 197)\<close>

text \<open>
  Bytes are elements of the field with 256 elements; \<open>xtime\<close> multiplies by \<open>x\<close>,
  \<open>gmul\<close> multiplies two elements, and \<open>ginv\<close> is the inverse (with 0 for 0), the
  254th power. The S-box is the inverse followed by the affine map.
\<close>

definition xtime :: "byte \<Rightarrow> byte" where
  "xtime b = (if bit b 7 then push_bit 1 b XOR 0x1B else push_bit 1 b)"

fun gmul_iter :: "nat \<Rightarrow> byte \<Rightarrow> byte \<Rightarrow> byte" where
  "gmul_iter 0 a b = 0"
| "gmul_iter (Suc n) a b =
     (if bit b 0 then a else 0) XOR gmul_iter n (xtime a) (drop_bit 1 b)"

definition gmul :: "byte \<Rightarrow> byte \<Rightarrow> byte" where
  "gmul a b = gmul_iter 8 a b"

definition ginv :: "byte \<Rightarrow> byte" where
  "ginv a =
     (let a2 = gmul a a; a4 = gmul a2 a2; a8 = gmul a4 a4; a16 = gmul a8 a8;
          a32 = gmul a16 a16; a64 = gmul a32 a32; a128 = gmul a64 a64
      in gmul a2 (gmul a4 (gmul a8 (gmul a16 (gmul a32 (gmul a64 a128))))))"

definition sbox :: "byte \<Rightarrow> byte" where
  "sbox a =
     (let x = ginv a
      in x XOR word_rotl 1 x XOR word_rotl 2 x XOR word_rotl 3 x XOR word_rotl 4 x XOR 0x63)"

definition sub_bytes :: "byte list \<Rightarrow> byte list" where
  "sub_bytes s = map sbox s"

text \<open>
  The state is the 16 bytes of a block, column by column. Row \<open>r\<close> of the state is
  rotated left by \<open>r\<close> columns.
\<close>

definition shift_rows :: "byte list \<Rightarrow> byte list" where
  "shift_rows s = map (\<lambda>i. s ! (i mod 4 + 4 * ((i div 4 + i mod 4) mod 4))) [0..<16]"

definition mix_column :: "byte \<Rightarrow> byte \<Rightarrow> byte \<Rightarrow> byte \<Rightarrow> byte list" where
  "mix_column a0 a1 a2 a3 =
     [xtime a0 XOR (xtime a1 XOR a1) XOR a2 XOR a3,
      a0 XOR xtime a1 XOR (xtime a2 XOR a2) XOR a3,
      a0 XOR a1 XOR xtime a2 XOR (xtime a3 XOR a3),
      (xtime a0 XOR a0) XOR a1 XOR a2 XOR xtime a3]"

fun mix_columns :: "byte list \<Rightarrow> byte list" where
  "mix_columns (a0 # a1 # a2 # a3 # r) = mix_column a0 a1 a2 a3 @ mix_columns r"
| "mix_columns r = []"

definition xor_bytes :: "byte list \<Rightarrow> byte list \<Rightarrow> byte list" where
  "xor_bytes xs ys = map (\<lambda>(x, y). x XOR y) (zip xs ys)"

text \<open>
  Key expansion for a key of 8 words and 14 rounds: 60 words of 4 bytes, each from the
  word before it and the word 8 places back.
\<close>

fun chunks :: "nat \<Rightarrow> 'a list \<Rightarrow> nat \<Rightarrow> 'a list list" where
  "chunks n xs 0 = []"
| "chunks n xs (Suc k) = take n xs # chunks n (drop n xs) k"

definition rcon :: "nat \<Rightarrow> byte" where
  "rcon j = (xtime ^^ (j - 1)) 1"

definition rot_word :: "byte list \<Rightarrow> byte list" where
  "rot_word w = drop 1 w @ take 1 w"

definition expand_step :: "nat \<Rightarrow> byte list list \<Rightarrow> byte list list" where
  "expand_step i w =
     (let temp = w ! (i - 1);
          t = (if i mod 8 = 0 then xor_bytes (sub_bytes (rot_word temp)) [rcon (i div 8), 0, 0, 0]
               else if i mod 8 = 4 then sub_bytes temp
               else temp)
      in w @ [xor_bytes (w ! (i - 8)) t])"

definition key_expansion :: "byte list \<Rightarrow> byte list list" where
  "key_expansion k = fold expand_step [8..<60] (chunks 4 k 8)"

text \<open>The expanded key so far: \<open>n\<close> words of 4 bytes.\<close>

definition words_ok :: "nat \<Rightarrow> byte list list \<Rightarrow> bool" where
  "words_ok n w = (length w = n \<and> list_all (\<lambda>x. length x = 4) w)"

definition round_key :: "byte list list \<Rightarrow> nat \<Rightarrow> byte list" where
  "round_key w r = concat (take 4 (drop (4 * r) w))"

definition aes_round :: "byte list list \<Rightarrow> nat \<Rightarrow> byte list \<Rightarrow> byte list" where
  "aes_round w r s = xor_bytes (mix_columns (shift_rows (sub_bytes s))) (round_key w r)"

definition aes256_encrypt_block :: "byte list \<Rightarrow> byte list \<Rightarrow> byte list" where
  "aes256_encrypt_block k blk =
     (let w = key_expansion k;
          s = fold (aes_round w) [1..<14] (xor_bytes blk (round_key w 0))
      in xor_bytes (shift_rows (sub_bytes s)) (round_key w 14))"

subsection \<open>Galois/Counter Mode (NIST SP 800-38D)\<close>

text \<open>
  A block is read as a 128-bit word with its first byte on top. The product of two
  blocks takes the bits of the first one from the top; \<open>0xE1\<close> followed by 120 zero
  bits stands for the field polynomial.
\<close>

type_synonym w128 = "128 word"

definition block_word :: "byte list \<Rightarrow> w128" where
  "block_word bs = foldl (\<lambda>w b. push_bit 8 w OR ucast b) 0 bs"

definition word_block :: "w128 \<Rightarrow> byte list" where
  "word_block w = map (\<lambda>i. ucast (drop_bit (8 * (15 - i)) w)) [0..<16]"

fun gf128_iter :: "nat \<Rightarrow> w128 \<Rightarrow> w128 \<Rightarrow> w128 \<Rightarrow> w128" where
  "gf128_iter 0 x z v = z"
| "gf128_iter (Suc n) x z v =
     gf128_iter n x (if bit x n then z XOR v else z)
       (if bit v 0 then drop_bit 1 v XOR push_bit 120 0xE1 else drop_bit 1 v)"

definition gf128_mul :: "w128 \<Rightarrow> w128 \<Rightarrow> w128" where
  "gf128_mul x y = gf128_iter 128 x 0 y"

definition pad16 :: "byte list \<Rightarrow> byte list" where
  "pad16 bs = bs @ replicate ((16 - length bs mod 16) mod 16) 0"

definition len64 :: "nat \<Rightarrow> byte list" where
  "len64 n = map (\<lambda>i. ucast (drop_bit (8 * (7 - i)) (of_nat n :: 64 word))) [0..<8]"

definition ghash :: "w128 \<Rightarrow> byte list \<Rightarrow> w128" where
  "ghash h bs =
     foldl (\<lambda>y x. gf128_mul (y XOR block_word x) h) 0 (chunks 16 bs (length bs div 16))"

definition hash_subkey :: "byte list \<Rightarrow> w128" where
  "hash_subkey k = block_word (aes256_encrypt_block k (replicate 16 0))"

definition pre_counter :: "byte list \<Rightarrow> byte list \<Rightarrow> byte list" where
  "pre_counter k iv =
     (if length iv = 12 then iv @ [0, 0, 0, 1]
      else word_block (ghash (hash_subkey k)
             (pad16 iv @ replicate 8 0 @ len64 (8 * length iv))))"

definition inc32 :: "byte list \<Rightarrow> byte list" where
  "inc32 cb =
     (let c = (foldl (\<lambda>w b. push_bit 8 w OR ucast b) 0 (drop 12 cb) :: 32 word) + 1
      in take 12 cb @ map (\<lambda>i. ucast (drop_bit (8 * (3 - i)) c)) [0..<4])"

function gctr :: "byte list \<Rightarrow> byte list \<Rightarrow> byte list \<Rightarrow> byte list" where
  "gctr k cb xs =
     (if xs = [] then []
      else xor_bytes (take 16 xs) (aes256_encrypt_block k cb) @ gctr k (inc32 cb) (drop 16 xs))"
  by pat_completeness auto
termination
  by (relation "measure (\<lambda>(k, cb, xs). length xs)") auto

declare gctr.simps [simp del]

definition gcm_tag :: "byte list \<Rightarrow> byte list \<Rightarrow> byte list \<Rightarrow> byte list" where
  "gcm_tag k iv c =
     xor_bytes (word_block (ghash (hash_subkey k) (pad16 c @ len64 0 @ len64 (8 * length c))))
       (aes256_encrypt_block k (pre_counter k iv))"

definition gcm_crypt :: "byte list \<Rightarrow> byte list \<Rightarrow> byte list \<Rightarrow> byte list" where
  "gcm_crypt k iv xs = gctr k (inc32 (pre_counter k iv)) xs"

section \<open>Message codec (\<^verbatim>\<open>encrypt\<close>, \<^verbatim>\<open>decrypt\<close>)\<close>

text \<open>
  \<^verbatim>\<open>
  function encrypt(text) {
    const iv = randomBytes(12);
    const cipher = createCipheriv('aes-256-gcm', Buffer.from(ENCRYPTION_KEY), iv, {
      authTagLength: 16,
    });
    const encrypted = Buffer.concat([cipher.update(text, 'utf8'), cipher.final()]);
    const tag = cipher.getAuthTag();
    return {
      data: Buffer.concat([encrypted, tag]).toString('base64'),
      iv: iv.toString('base64'),
    };
  }
  \<close>
  What \<^verbatim>\<open>randomBytes(12)\<close> returns is an argument of the model: 96 bits, as 12 bytes.
  \<^verbatim>\<open>createCipheriv\<close> and \<^verbatim>\<open>createDecipheriv\<close> throw when the key is not 32 bytes long
  or the IV is empty. \<^verbatim>\<open>Buffer.from(ENCRYPTION_KEY)\<close> is the UTF-8 form of the key string.
\<close>

datatype crypto_error = InvalidKeyLength | InvalidIV | InvalidAuthTagLength | AuthFailed

record encrypted =
  data :: jsstring
  iv :: jsstring

definition randomBytes12 :: "96 word \<Rightarrow> byte list" where
  "randomBytes12 r = map (\<lambda>i. ucast (drop_bit (8 * (11 - i)) r)) [0..<12]"

definition cipher_args_error :: "byte list \<Rightarrow> byte list \<Rightarrow> crypto_error option" where
  "cipher_args_error k ivb =
     (if length k \<noteq> 32 then Some InvalidKeyLength
      else if ivb = [] then Some InvalidIV
      else None)"

definition encrypt :: "jsstring \<Rightarrow> 96 word \<Rightarrow> jsstring \<Rightarrow> crypto_error + encrypted" where
  "encrypt key rnd text =
     (let ivb = randomBytes12 rnd;
          k = utf8_encode key
      in case cipher_args_error k ivb of
           Some e \<Rightarrow> Inl e
         | None \<Rightarrow>
             let enc = gcm_crypt k ivb (utf8_encode text);
                 tag = gcm_tag k ivb enc
             in Inr \<lparr>data = base64_encode (enc @ tag), iv = base64_encode ivb\<rparr>)"

text \<open>
  \<^verbatim>\<open>
  function decrypt(dataBase64, ivBase64) {
    const iv = Buffer.from(ivBase64, 'base64');
    const combined = Buffer.from(dataBase64, 'base64');
    const tag = combined.slice(combined.length - 16);
    const encrypted = combined.slice(0, combined.length - 16);
    const decipher = createDecipheriv('aes-256-gcm', Buffer.from(ENCRYPTION_KEY), iv, {
      authTagLength: 16,
    });
    decipher.setAuthTag(tag);
    const decrypted = Buffer.concat([decipher.update(encrypted), decipher.final()]);
    return decrypted.toString('utf8');
  }
  \<close>
  \<^verbatim>\<open>setAuthTag\<close> throws when the tag is not 16 bytes long, \<^verbatim>\<open>final\<close> throws when the tag
  does not match the ciphertext. \<^verbatim>\<open>toString('utf8')\<close> does not throw. The buffers
  \<^verbatim>\<open>iv\<close> and \<^verbatim>\<open>encrypted\<close> are \<open>ivb\<close> and \<open>enc\<close> here.
\<close>

definition decrypt :: "jsstring \<Rightarrow> jsstring \<Rightarrow> jsstring \<Rightarrow> crypto_error + jsstring" where
  "decrypt key dataBase64 ivBase64 =
     (let ivb = base64_decode ivBase64;
          combined = base64_decode dataBase64;
          tag = buf_slice combined (int (length combined) - 16) (int (length combined));
          enc = buf_slice combined 0 (int (length combined) - 16);
          k = utf8_encode key
      in case cipher_args_error k ivb of
           Some e \<Rightarrow> Inl e
         | None \<Rightarrow>
             if length tag \<noteq> 16 then Inl InvalidAuthTagLength
             else if gcm_tag k ivb enc \<noteq> tag then Inl AuthFailed
             else Inr (utf8_decode (gcm_crypt k ivb enc)))"

text \<open>
  What \<^verbatim>\<open>encrypt\<close> returns when \<^verbatim>\<open>createCipheriv\<close> accepts the key, and decrypting
  what \<^verbatim>\<open>encrypt\<close> returned, under the same key.
\<close>

definition seal :: "jsstring \<Rightarrow> 96 word \<Rightarrow> jsstring \<Rightarrow> encrypted" where
  "seal key rnd text =
     (let k = utf8_encode key;
          ivb = randomBytes12 rnd;
          enc = gcm_crypt k ivb (utf8_encode text)
      in \<lparr>data = base64_encode (enc @ gcm_tag k ivb enc), iv = base64_encode ivb\<rparr>)"

definition round_trip :: "jsstring \<Rightarrow> 96 word \<Rightarrow> jsstring \<Rightarrow> crypto_error + jsstring" where
  "round_trip key rnd text =
     (case encrypt key rnd text of
        Inl e \<Rightarrow> Inl e
      | Inr c \<Rightarrow> decrypt key (data c) (iv c))"

section \<open>Storage and the HTTP routes\<close>

text \<open>
  The tables are lists of rows in table order. A response is the JSON body of a
  success, or the status and the \<^verbatim>\<open>error\<close> text of a failure. User ids are numbers;
  \<^verbatim>\<open>String(a) === String(b)\<close> on two ids holds exactly when the ids are equal, and the
  model compares the numbers. A property of a request body is absent (\<open>None\<close>) or a
  string; the password of a login is any JSON value. Queries that reach the database are
  answered; a database that is down is not part of the model.
\<close>

datatype http_error = HttpError nat string

record user =
  user_id :: nat
  username :: jsstring
  email :: "jsstring option"
  password_hash :: jsstring

record message_row =
  msg_id :: nat
  chat_id :: jsstring
  sender_id :: nat
  content :: jsstring
  msg_iv :: jsstring
  created_at :: int

record db =
  users :: "user list"
  friends :: "(nat \<times> nat) list"
  messages :: "message_row list"
  messages_id_seq :: nat

text \<open>
  \<^verbatim>\<open>a || b\<close> on two properties of a body, and the test \<^verbatim>\<open>!x\<close>: the empty string and
  an absent property are falsy.
\<close>

definition truthy_str :: "jsstring option \<Rightarrow> bool" where
  "truthy_str v = (case v of None \<Rightarrow> False | Some s \<Rightarrow> s \<noteq> [])"

definition js_or :: "jsstring option \<Rightarrow> jsstring option \<Rightarrow> jsstring option" where
  "js_or a b = (if truthy_str a then a else b)"

text \<open>
  \<^verbatim>\<open>SELECT ... FROM users WHERE username=$1 OR email=$1 LIMIT 1\<close> and
  \<^verbatim>\<open>User.findOne({ $or: [{ username: identifier }, { email: identifier }] })\<close>:
  the first matching row in table order. A \<^verbatim>\<open>NULL\<close> email matches nothing.
\<close>

definition find_user :: "user list \<Rightarrow> jsstring \<Rightarrow> user option" where
  "find_user us ident = find (\<lambda>u. username u = ident \<or> email u = Some ident) us"

subsection \<open>\<^verbatim>\<open>POST /api/login\<close>\<close>

text \<open>
  \<^verbatim>\<open>
  const { usernameOrEmail, username, password } = req.body || {};
  const identifier = usernameOrEmail || username;
  if (!identifier || !password) return res.status(400).json({ error: 'username/email and password required' });
  try {
    ...
    const user = result.rows[0];
    if (!user) return res.status(400).json({ error: 'Invalid credentials' });
    const ok = await bcrypt.compare(password, user.password_hash);
    if (!ok) return res.status(400).json({ error: 'Invalid credentials' });
    const safeUser = { id: String(user.id), username: user.username, email: user.email };
    const token = signToken(safeUser);
    res.json({ user: safeUser, token });
  } catch (err) { ... res.status(500).json({ error: 'Internal server error' }); }
  \<close>
  \<^verbatim>\<open>bcrypt.compare\<close> rejects with \<^verbatim>\<open>Illegal arguments\<close> when the password is not a
  string, and the \<^verbatim>\<open>catch\<close> block then answers 500; on two strings it answers true or
  false, by the check of the hash that is the parameter \<open>check\<close>. \<^verbatim>\<open>jwt.sign\<close> with
  the server's secret is a parameter too. The test \<^verbatim>\<open>!password\<close> is the conversion of the
  value to a boolean. Both servers have this route in the same form.
\<close>

record login_body =
  body_usernameOrEmail :: "jsstring option"
  body_username :: "jsstring option"
  body_password :: jval

record safe_user =
  safe_id :: nat
  safe_username :: jsstring
  safe_email :: "jsstring option"

datatype bcrypt_error = IllegalArguments

definition bcrypt_compare ::
  "(jsstring \<Rightarrow> jsstring \<Rightarrow> bool) \<Rightarrow> jval \<Rightarrow> jsstring \<Rightarrow> bcrypt_error + bool" where
  "bcrypt_compare check password hash =
     (case password of
        JStr s \<Rightarrow> Inr (check s hash)
      | _ \<Rightarrow> Inl IllegalArguments)"

definition login ::
  "(jsstring \<Rightarrow> jsstring \<Rightarrow> bool) \<Rightarrow> (safe_user \<Rightarrow> jsstring) \<Rightarrow> user list \<Rightarrow> login_body
     \<Rightarrow> http_error + (safe_user \<times> jsstring)" where
  "login check signToken us body =
     (case js_or (body_usernameOrEmail body) (body_username body) of
        None \<Rightarrow> Inl (HttpError 400 ''username/email and password required'')
      | Some identifier \<Rightarrow>
          if identifier = [] \<or> \<not> truthy (body_password body)
          then Inl (HttpError 400 ''username/email and password required'')
          else
            (case find_user us identifier of
               None \<Rightarrow> Inl (HttpError 400 ''Invalid credentials'')
             | Some u \<Rightarrow>
                 (case bcrypt_compare check (body_password body) (password_hash u) of
                    Inl e \<Rightarrow> Inl (HttpError 500 ''Internal server error'')
                  | Inr ok \<Rightarrow>
                      if \<not> ok then Inl (HttpError 400 ''Invalid credentials'')
                      else
                        let safeUser = \<lparr>safe_id = user_id u, safe_username = username u,
                                         safe_email = email u\<rparr>
                        in Inr (safeUser, signToken safeUser))))"

subsection \<open>\<^verbatim>\<open>POST /api/friends/add\<close>\<close>

record friend_body =
  body_identifier :: "jsstring option"
  body_friend_username :: "jsstring option"

record friend_summary =
  friend_id :: nat
  friend_username :: jsstring

text \<open>
  The Postgres server:
  \<^verbatim>\<open>
  const ident = identifier || username;
  if (!ident) return res.status(400).json({ error: 'username or email required' });
  try {
    ...
    const friend = found.rows[0];
    if (!friend) return res.status(404).json({ error: 'User not found' });
    if (String(friend.id) === String(req.user.id)) return res.status(400).json({ error: 'Cannot add yourself' });
    const upsert = `INSERT INTO friends (user_id, friend_id) VALUES ($1, $2)
                    ON CONFLICT (user_id, friend_id) DO NOTHING`;
    await query(upsert, [req.user.id, friend.id]);
    await query(upsert, [friend.id, req.user.id]);
    res.json({ friend: { id: String(friend.id), username: friend.username } });
  } catch (err) { ... res.status(500).json({ error: 'Internal server error' }); }
  \<close>
  The table has \<^verbatim>\<open>UNIQUE(user_id, friend_id)\<close>, and both columns reference
  \<^verbatim>\<open>users(id)\<close>: an insert of an id that is not a user throws. Each query commits on
  its own.
\<close>

datatype db_error = ForeignKeyViolation | DuplicateKey

definition pg_upsert_friend :: "nat \<Rightarrow> nat \<Rightarrow> db \<Rightarrow> db_error + db" where
  "pg_upsert_friend u f d =
     (if u \<notin> set (map user_id (users d)) \<or> f \<notin> set (map user_id (users d))
      then Inl ForeignKeyViolation
      else if (u, f) \<in> set (friends d) then Inr d
      else Inr (d\<lparr>friends := friends d @ [(u, f)]\<rparr>))"

definition add_friend_pg :: "nat \<Rightarrow> friend_body \<Rightarrow> db \<Rightarrow> (http_error + friend_summary) \<times> db" where
  "add_friend_pg me body d =
     (case js_or (body_identifier body) (body_friend_username body) of
        None \<Rightarrow> (Inl (HttpError 400 ''username or email required''), d)
      | Some ident \<Rightarrow>
          if ident = [] then (Inl (HttpError 400 ''username or email required''), d)
          else
            (case find_user (users d) ident of
               None \<Rightarrow> (Inl (HttpError 404 ''User not found''), d)
             | Some friend \<Rightarrow>
                 if user_id friend = me then (Inl (HttpError 400 ''Cannot add yourself''), d)
                 else
                   (case pg_upsert_friend me (user_id friend) d of
                      Inl e \<Rightarrow> (Inl (HttpError 500 ''Internal server error''), d)
                    | Inr d1 \<Rightarrow>
                        (case pg_upsert_friend (user_id friend) me d1 of
                           Inl e \<Rightarrow> (Inl (HttpError 500 ''Internal server error''), d1)
                         | Inr d2 \<Rightarrow>
                             (Inr \<lparr>friend_id = user_id friend,
                                   friend_username = username friend\<rparr>, d2)))))"

text \<open>
  The MongoDB server:
  \<^verbatim>\<open>
  const existingFriendship = await Friend.findOne({ user: req.user.id, friend: friend._id });
  if (existingFriendship) return res.status(400).json({ error: "Already friends" });
  await new Friend({ user: req.user.id, friend: friend._id }).save();
  await new Friend({ user: friend._id, friend: req.user.id }).save();
  \<close>
  The schema of \<^verbatim>\<open>Friend\<close> is not part of the sources: whether the collection has a
  unique index on the pair is the parameter \<open>unique_index\<close>. With the index, saving a
  pair that is present throws.
\<close>

definition mongo_save_friend :: "bool \<Rightarrow> nat \<Rightarrow> nat \<Rightarrow> db \<Rightarrow> db_error + db" where
  "mongo_save_friend unique_index u f d =
     (if unique_index \<and> (u, f) \<in> set (friends d) then Inl DuplicateKey
      else Inr (d\<lparr>friends := friends d @ [(u, f)]\<rparr>))"

definition add_friend_mongo ::
  "bool \<Rightarrow> nat \<Rightarrow> friend_body \<Rightarrow> db \<Rightarrow> (http_error + friend_summary) \<times> db" where
  "add_friend_mongo unique_index me body d =
     (case js_or (body_identifier body) (body_friend_username body) of
        None \<Rightarrow> (Inl (HttpError 400 ''username or email required''), d)
      | Some ident \<Rightarrow>
          if ident = [] then (Inl (HttpError 400 ''username or email required''), d)
          else
            (case find_user (users d) ident of
               None \<Rightarrow> (Inl (HttpError 404 ''User not found''), d)
             | Some friend \<Rightarrow>
                 if user_id friend = me then (Inl (HttpError 400 ''Cannot add yourself''), d)
                 else if (me, user_id friend) \<in> set (friends d)
                 then (Inl (HttpError 400 ''Already friends''), d)
                 else
                   (case mongo_save_friend unique_index me (user_id friend) d of
                      Inl e \<Rightarrow> (Inl (HttpError 500 ''Internal server error''), d)
                    | Inr d1 \<Rightarrow>
                        (case mongo_save_friend unique_index (user_id friend) me d1 of
                           Inl e \<Rightarrow> (Inl (HttpError 500 ''Internal server error''), d1)
                         | Inr d2 \<Rightarrow>
                             (Inr \<lparr>friend_id = user_id friend,
                                   friend_username = username friend\<rparr>, d2)))))"

subsection \<open>\<^verbatim>\<open>POST /api/messages\<close> and \<^verbatim>\<open>GET /api/messages\<close>\<close>

record message =
  message_id :: nat
  message_chat_id :: jsstring
  message_sender_id :: nat
  message_content :: jsstring
  message_created_at :: int

record message_body =
  body_chatId :: "jsstring option"
  body_content :: "jsstring option"

text \<open>
  The message object of a response: the columns of the row, with the plain text for the
  content.
\<close>

definition to_message :: "message_row \<Rightarrow> jsstring \<Rightarrow> message" where
  "to_message r text =
     \<lparr>message_id = msg_id r, message_chat_id = chat_id r, message_sender_id = sender_id r,
      message_content = text, message_created_at = created_at r\<rparr>"

text \<open>
  \<^verbatim>\<open>
  const { chatId, content } = req.body || {};
  if (!chatId || !content) return res.status(400).json({ error: 'chatId and content required' });
  try {
    const { data, iv } = encrypt(content);
    const insert = `INSERT INTO messages (chat_id, sender_id, content, iv) VALUES ($1, $2, $3, $4)
                    RETURNING id, chat_id, sender_id, content, iv, created_at`;
    const result = await query(insert, [chatId, req.user.id, data, iv]);
    const msg = result.rows[0];
    const message = { id: String(msg.id), chat_id: msg.chat_id, sender_id: String(msg.sender_id),
                      content, created_at: msg.created_at };
    broadcastToChat(chatId, { type: 'message', message });
    res.json({ message });
  } catch (err) { ... res.status(500).json({ error: 'Internal server error' }); }
  \<close>
  The row gets the next value of the id sequence, which is used up also when the insert
  then fails on the reference to \<^verbatim>\<open>users(id)\<close>, and the current time of the database
  clock (\<^verbatim>\<open>DEFAULT CURRENT_TIMESTAMP\<close>; \<^verbatim>\<open>Date.now()\<close> in the MongoDB server), which is
  the argument \<open>now\<close>. The route returns the response and the new tables; after a
  successful insert it calls \<^verbatim>\<open>broadcastToChat\<close> of the hub with the chat id and the
  message of the response.
\<close>

definition post_message ::
  "jsstring \<Rightarrow> 96 word \<Rightarrow> int \<Rightarrow> nat \<Rightarrow> message_body \<Rightarrow> db
     \<Rightarrow> (http_error + message) \<times> db" where
  "post_message key rnd now me body d =
     (case (body_chatId body, body_content body) of
        (Some chatId, Some text) \<Rightarrow>
          if chatId = [] \<or> text = [] then (Inl (HttpError 400 ''chatId and content required''), d)
          else
            (case encrypt key rnd text of
               Inl e \<Rightarrow> (Inl (HttpError 500 ''Internal server error''), d)
             | Inr c \<Rightarrow>
                 if me \<notin> set (map user_id (users d))
                 then (Inl (HttpError 500 ''Internal server error''),
                       d\<lparr>messages_id_seq := Suc (messages_id_seq d)\<rparr>)
                 else
                   let row = \<lparr>msg_id = messages_id_seq d, chat_id = chatId, sender_id = me,
                              content = data c, msg_iv = iv c, created_at = now\<rparr>
                   in (Inr (to_message row text),
                       d\<lparr>messages := messages d @ [row],
                         messages_id_seq := Suc (messages_id_seq d)\<rparr>))
      | _ \<Rightarrow> (Inl (HttpError 400 ''chatId and content required''), d))"

text \<open>
  \<^verbatim>\<open>
  const chatId = req.query.chatId;
  if (!chatId) return res.status(400).json({ error: 'chatId query required' });
  try {
    const text = `SELECT id, chat_id, sender_id, content, iv, created_at FROM messages
                  WHERE chat_id = $1 ORDER BY created_at ASC`;
    const result = await query(text, [chatId]);
    const messages = result.rows.map((r) => ({
      id: String(r.id), chat_id: r.chat_id, sender_id: String(r.sender_id),
      content: decrypt(r.content, r.iv), created_at: r.created_at,
    }));
    res.json({ messages });
  } catch (err) { ... res.status(500).json({ error: 'Internal server error' }); }
  \<close>
  The MongoDB server reads \<^verbatim>\<open>Message.find({ chatId }).sort({ createdAt: 1 })\<close> and maps
  the rows in the same way. Rows with the same time keep their table order here.
  \<^verbatim>\<open>map\<close> calls \<^verbatim>\<open>decrypt\<close> row by row, and the first exception ends it.
\<close>

definition select_messages :: "message_row list \<Rightarrow> jsstring \<Rightarrow> message_row list" where
  "select_messages rows chatId = sort_key created_at (filter (\<lambda>r. chat_id r = chatId) rows)"

fun decrypt_rows :: "jsstring \<Rightarrow> message_row list \<Rightarrow> crypto_error + message list" where
  "decrypt_rows key [] = Inr []"
| "decrypt_rows key (r # rs) =
     (case decrypt key (content r) (msg_iv r) of
        Inl e \<Rightarrow> Inl e
      | Inr text \<Rightarrow>
          (case decrypt_rows key rs of
             Inl e \<Rightarrow> Inl e
           | Inr ms \<Rightarrow> Inr (to_message r text # ms)))"

text \<open>The message \<open>m\<close> is the row \<open>r\<close> with its content decrypted.\<close>

definition decrypts_to :: "jsstring \<Rightarrow> message_row \<Rightarrow> message \<Rightarrow> bool" where
  "decrypts_to key r m =
     (case decrypt key (content r) (msg_iv r) of
        Inl e \<Rightarrow> False
      | Inr t \<Rightarrow> m = to_message r t)"

definition get_messages :: "jsstring \<Rightarrow> jsstring option \<Rightarrow> db \<Rightarrow> http_error + message list" where
  "get_messages key chatId d =
     (case chatId of
        None \<Rightarrow> Inl (HttpError 400 ''chatId query required'')
      | Some c \<Rightarrow>
          if c = [] then Inl (HttpError 400 ''chatId query required'')
          else
            (case decrypt_rows key (select_messages (messages d) c) of
               Inl e \<Rightarrow> Inl (HttpError 500 ''Internal server error'')
             | Inr ms \<Rightarrow> Inr ms))"

section \<open>Example data\<close>

text \<open>
  Two registered users, and a stand-in for the hash check of \<^verbatim>\<open>bcrypt.compare\<close> and for
  \<^verbatim>\<open>jwt.sign\<close> in the examples.
\<close>

definition alice :: user where
  "alice = \<lparr>user_id = 1, username = js ''alice'', email = Some (js ''alice@example.org''),
            password_hash = js ''hash-of-wonderland''\<rparr>"

definition bob :: user where
  "bob = \<lparr>user_id = 2, username = js ''bob'', email = None,
          password_hash = js ''hash-of-builder''\<rparr>"

definition db0 :: db where
  "db0 = \<lparr>users = [alice, bob], friends = [], messages = [], messages_id_seq = 1\<rparr>"

definition compare_ex :: "jsstring \<Rightarrow> jsstring \<Rightarrow> bool" where
  "compare_ex password h = (h = js ''hash-of-'' @ password)"

definition sign_ex :: "safe_user \<Rightarrow> jsstring" where
  "sign_ex u = js ''token.'' @ safe_username u"

definition add_bob :: friend_body where
  "add_bob = \<lparr>body_identifier = Some (js ''bob''), body_friend_username = None\<rparr>"

definition carol :: user where
  "carol = \<lparr>user_id = 3, username = js ''carol'', email = None,
            password_hash = js ''hash-of-secret''\<rparr>"

definition login_carol :: login_body where
  "login_carol = \<lparr>body_usernameOrEmail = Some (js ''carol''), body_username = None,
                  body_password = JStr (js ''guess'')\<rparr>"

text \<open>The body \<^verbatim>\<open>{"usernameOrEmail":"carol","password":12345}\<close>.\<close>

definition login_carol_number :: login_body where
  "login_carol_number = \<lparr>body_usernameOrEmail = Some (js ''carol''), body_username = None,
                         body_password = JNum 12345\<rparr>"

text \<open>
  A chat between the two users: \<open>alice\<close> posts at time 2000 of the database clock,
  \<open>bob\<close> posts afterwards, at time 1000 of a clock that was set back in between. In
  \<open>db_damaged\<close> a third record of the chat holds three bytes where ciphertext and tag
  should be.
\<close>

definition chat_1_2 :: jsstring where
  "chat_1_2 = js ''chat_1_2''"

definition db1 :: db where
  "db1 = snd (post_message (ENCRYPTION_KEY None) 11 2000 1
                \<lparr>body_chatId = Some chat_1_2, body_content = Some (js ''hi'')\<rparr> db0)"

definition db2 :: db where
  "db2 = snd (post_message (ENCRYPTION_KEY None) 12 1000 2
                \<lparr>body_chatId = Some chat_1_2, body_content = Some (js ''yo'')\<rparr> db1)"

definition row1 :: message_row where
  "row1 = \<lparr>msg_id = 1, chat_id = chat_1_2, sender_id = 1,
           content = data (seal (ENCRYPTION_KEY None) 11 (js ''hi'')),
           msg_iv = iv (seal (ENCRYPTION_KEY None) 11 (js ''hi'')), created_at = 2000\<rparr>"

definition row2 :: message_row where
  "row2 = \<lparr>msg_id = 2, chat_id = chat_1_2, sender_id = 2,
           content = data (seal (ENCRYPTION_KEY None) 12 (js ''yo'')),
           msg_iv = iv (seal (ENCRYPTION_KEY None) 12 (js ''yo'')), created_at = 1000\<rparr>"

definition damaged_row :: message_row where
  "damaged_row = \<lparr>msg_id = 3, chat_id = chat_1_2, sender_id = 2, content = js ''AAAA'',
                  msg_iv = js ''AAAAAAAAAAAAAAAA'', created_at = 3000\<rparr>"

definition db_damaged :: db where
  "db_damaged = db2\<lparr>messages := messages db2 @ [damaged_row]\<rparr>"

section \<open>Properties of the chat identity derivation\<close>

lemma str_lt_asym: "str_lt xs ys \<Longrightarrow> \<not> str_lt ys xs"
  by (induction xs ys rule: str_lt.induct) (auto split: if_splits)

lemma str_lt_total: "\<not> str_lt xs ys \<Longrightarrow> \<not> str_lt ys xs \<Longrightarrow> xs = ys"
  by (induction xs ys rule: str_lt.induct) (auto split: if_splits)

text \<open>
  C5: the chat id does not depend on the order of the two ids, also when both are
  the same id; as a function of its arguments it is deterministic.
\<close>

theorem makeChatId_commute:
  "makeChatId num_str a b = makeChatId num_str b a"
proof (cases "str_lt (String_of num_str a) (String_of num_str b)")
  case True
  then have "\<not> str_lt (String_of num_str b) (String_of num_str a)"
    by (rule str_lt_asym)
  with True show ?thesis
    by (simp add: makeChatId_def)
next
  case False
  show ?thesis
  proof (cases "str_lt (String_of num_str b) (String_of num_str a)")
    case True
    with False show ?thesis
      by (simp add: makeChatId_def)
  next
    case nlt: False
    from False nlt have "String_of num_str a = String_of num_str b"
      by (rule str_lt_total)
    then show ?thesis
      by (simp add: makeChatId_def)
  qed
qed


lemma makeChatId_example:
  "makeChatId num_str (IdStr (js ''7'')) (IdStr (js ''12'')) = js ''chat_12_7''"
  "makeChatId num_str (IdStr (js ''12'')) (IdStr (js ''7'')) = js ''chat_12_7''"
  "makeChatId num_str (IdStr (js ''7'')) (IdStr (js ''7'')) = js ''chat_7_7''"
  by (simp_all add: makeChatId_def js_def)

section \<open>Properties of the fan-out hub\<close>

lemma ws_send_OPEN:
  "readyState h ws = OPEN \<Longrightarrow>
   ws_send ws d h = Inr (h\<lparr>outbox := (outbox h)(ws := outbox h ws @ [d])\<rparr>)"
  by (simp add: ws_send_def)

lemma map_get_None_iff: "map_get m k = None \<longleftrightarrow> k \<notin> fst ` set m"
  by (induction m) (auto split: if_splits)

lemma map_get_Some_mem: "map_get m k = Some v \<Longrightarrow> (k, v) \<in> set m"
  by (induction m) (auto split: if_splits)

lemma broadcast_loop_result:
  "distinct (map fst es) \<Longrightarrow>
   \<exists>h'. broadcast_loop es X msg h = Inr h' \<and> subs h' = subs h \<and> readyState h' = readyState h \<and>
     (\<forall>c. outbox h' c =
        (if (case map_get es c of None \<Rightarrow> False | Some s \<Rightarrow> set_has X s) \<and> readyState h c = OPEN
         then outbox h c @ [msg] else outbox h c))"
proof (induction es arbitrary: h)
  case Nil
  then show ?case by simp
next
  case (Cons e es)
  obtain ws s where e: "e = (ws, s)" by (cases e)
  from Cons.prems e have dist: "distinct (map fst es)" and fresh: "map_get es ws = None"
    by (auto simp: map_get_None_iff)
  show ?case
  proof (cases "set_has X s \<and> readyState h ws = OPEN")
    case True
    let ?h1 = "h\<lparr>outbox := (outbox h)(ws := outbox h ws @ [msg])\<rparr>"
    from Cons.IH [OF dist, of ?h1] obtain h' where
      h': "broadcast_loop es X msg ?h1 = Inr h'" "subs h' = subs ?h1" "readyState h' = readyState ?h1"
        "\<forall>c. outbox h' c =
          (if (case map_get es c of None \<Rightarrow> False | Some s \<Rightarrow> set_has X s) \<and> readyState ?h1 c = OPEN
           then outbox ?h1 c @ [msg] else outbox ?h1 c)"
      by blast
    from True h' fresh show ?thesis
      by (auto simp: e ws_send_OPEN)
  next
    case False
    from Cons.IH [OF dist, of h] obtain h' where
      h': "broadcast_loop es X msg h = Inr h'" "subs h' = subs h" "readyState h' = readyState h"
        "\<forall>c. outbox h' c =
          (if (case map_get es c of None \<Rightarrow> False | Some s \<Rightarrow> set_has X s) \<and> readyState h c = OPEN
           then outbox h c @ [msg] else outbox h c)"
      by blast
    from False h' fresh show ?thesis
      by (auto simp: e)
  qed
qed

lemma map_get_map_set: "map_get (map_set k v m) k' = (if k' = k then Some v else map_get m k')"
  by (induction m) auto

lemma map_get_map_delete: "map_get (map_delete k m) k' = (if k' = k then None else map_get m k')"
  by (induction m) (auto simp: map_delete_def)

lemma keys_map_set: "set (map fst (map_set k v m)) = insert k (set (map fst m))"
proof (induction m)
  case Nil
  then show ?case by simp
next
  case (Cons e m)
  obtain k' v' where "e = (k', v')" by (cases e)
  with Cons show ?case
    by (cases "k' = k") auto
qed

lemma distinct_map_set: "distinct (map fst m) \<Longrightarrow> distinct (map fst (map_set k v m))"
proof (induction m)
  case Nil
  then show ?case by simp
next
  case (Cons e m)
  obtain k' v' where e: "e = (k', v')" by (cases e)
  from Cons have "distinct (map fst (map_set k v m))" by simp
  moreover from Cons.prems e have "k' \<notin> set (map fst m)" by simp
  ultimately show ?case
    using Cons.prems e keys_map_set [of k v m] by auto
qed

lemma distinct_map_delete: "distinct (map fst m) \<Longrightarrow> distinct (map fst (map_delete k m))"
  by (simp add: map_delete_def distinct_map_filter)

lemma ws_send_fields:
  "subs (try_catch_ignore (ws_send ws d h)) = subs h"
  "readyState (try_catch_ignore (ws_send ws d h)) = readyState h"
  by (simp_all add: ws_send_def try_catch_ignore_def split: ready_state.splits)

lemma ws_send_outbox_other:
  "c \<noteq> ws \<Longrightarrow> outbox (try_catch_ignore (ws_send ws d h)) c = outbox h c"
  by (simp add: ws_send_def try_catch_ignore_def split: ready_state.splits)

lemma subs_do_subscribe:
  "subs (try_catch_ignore (do_subscribe ws X h)) =
     (case map_get (subs h) ws of None \<Rightarrow> subs h | Some s \<Rightarrow> map_set ws (set_add X s) (subs h))"
  by (simp add: do_subscribe_def ws_send_fields try_catch_ignore_def [of "Inl x" for x]
      split: option.splits)

lemma subs_do_unsubscribe:
  "subs (try_catch_ignore (do_unsubscribe ws X h)) =
     (case map_get (subs h) ws of None \<Rightarrow> subs h | Some s \<Rightarrow> map_set ws (set_delete X s) (subs h))"
  by (simp add: do_unsubscribe_def ws_send_fields try_catch_ignore_def [of "Inl x" for x]
      split: option.splits)


lemma subs_broadcast: "wf_hub h \<Longrightarrow> subs (try_catch_ignore (broadcastToChat X p h)) = subs h"
  using broadcast_loop_result [of "subs h" X p h]
  by (auto simp: wf_hub_def broadcastToChat_def try_catch_ignore_def)

lemma wf_hub_step: "wf_hub h \<Longrightarrow> wf_hub (step e h)"
proof (cases e)
  case (Connection ws)
  assume "wf_hub h"
  then show ?thesis
    by (simp add: Connection on_connection_def wf_hub_def distinct_map_set)
next
  case (Message ws raw)
  assume "wf_hub h"
  then show ?thesis
    by (simp add: Message on_message_def wf_hub_def subs_do_subscribe subs_do_unsubscribe
        distinct_map_set split: ws_in.splits option.splits)
next
  case (Close ws)
  assume "wf_hub h"
  then show ?thesis
    by (simp add: Close on_close_def wf_hub_def distinct_map_delete)
next
  case (Transport ws r)
  assume "wf_hub h"
  then show ?thesis
    by (simp add: Transport wf_hub_def)
next
  case (Broadcast X p)
  assume wf: "wf_hub h"
  then show ?thesis
    using subs_broadcast [OF wf, of X p] by (simp add: Broadcast wf_hub_def)
qed

lemma wf_hub_run: "wf_hub h \<Longrightarrow> wf_hub (run es h)"
  by (induction es arbitrary: h) (simp_all add: wf_hub_step)

lemma wf_hub_init: "wf_hub init_hub"
  by (simp add: wf_hub_def init_hub_def)

lemma not_subscribed_step:
  assumes "wf_hub h" and "\<not> subscribed h c X"
    and "e \<noteq> Message c (Parsed (JStr (js ''subscribe'')) X)"
  shows "\<not> subscribed (step e h) c X"
proof (cases e)
  case (Connection ws)
  with assms show ?thesis
    by (simp add: on_connection_def subscribed_def map_get_map_set set_has_def)
next
  case (Message ws raw)
  with assms show ?thesis
    by (auto simp: on_message_def subscribed_def subs_do_subscribe subs_do_unsubscribe
        map_get_map_set set_has_def set_add_def set_delete_def
        split: ws_in.splits option.splits if_splits)
next
  case (Close ws)
  with assms show ?thesis
    by (simp add: on_close_def subscribed_def map_get_map_delete)
next
  case (Transport ws r)
  with assms show ?thesis
    by (simp add: subscribed_def)
next
  case (Broadcast Y p)
  with assms show ?thesis
    by (simp add: subscribed_def subs_broadcast)
qed

lemma not_subscribed_run:
  assumes "wf_hub h" and "\<not> subscribed h c X"
    and "Message c (Parsed (JStr (js ''subscribe'')) X) \<notin> set es"
  shows "\<not> subscribed (run es h) c X"
  using assms
proof (induction es arbitrary: h)
  case Nil
  then show ?case by simp
next
  case (Cons e es)
  from Cons.prems have "\<not> subscribed (step e h) c X"
    by (intro not_subscribed_step) auto
  moreover from Cons.prems have "wf_hub (step e h)"
    by (simp add: wf_hub_step)
  ultimately show ?case
    using Cons.IH [of "step e h"] Cons.prems by simp
qed

lemma unregistered_step:
  assumes "wf_hub h" and "map_get (subs h) c = None" and "e \<noteq> Connection c"
  shows "map_get (subs (step e h)) c = None"
proof (cases e)
  case (Connection ws)
  with assms show ?thesis
    by (simp add: on_connection_def map_get_map_set)
next
  case (Message ws raw)
  with assms show ?thesis
    by (auto simp: on_message_def subs_do_subscribe subs_do_unsubscribe map_get_map_set
        split: ws_in.splits option.splits)
next
  case (Close ws)
  with assms show ?thesis
    by (simp add: on_close_def map_get_map_delete)
next
  case (Transport ws r)
  with assms show ?thesis by simp
next
  case (Broadcast Y p)
  with assms show ?thesis
    by (simp add: subs_broadcast)
qed

lemma unregistered_run:
  assumes "wf_hub h" and "map_get (subs h) c = None" and "Connection c \<notin> set es"
  shows "map_get (subs (run es h)) c = None"
  using assms
proof (induction es arbitrary: h)
  case Nil
  then show ?case by simp
next
  case (Cons e es)
  from Cons.prems have "map_get (subs (step e h)) c = None"
    by (intro unregistered_step) auto
  moreover from Cons.prems have "wf_hub (step e h)"
    by (simp add: wf_hub_step)
  ultimately show ?case
    using Cons.IH [of "step e h"] Cons.prems by simp
qed

lemma broadcast_outbox:
  assumes "wf_hub h"
  shows "outbox_after (broadcastToChat X p h) c =
     Some (if subscribed h c X \<and> readyState h c = OPEN then outbox h c @ [p] else outbox h c)"
proof -
  from assms have "distinct (map fst (subs h))"
    by (simp add: wf_hub_def)
  from broadcast_loop_result [OF this, of X p h] obtain h' where
    "broadcast_loop (subs h) X p h = Inr h'"
    "\<forall>c. outbox h' c =
        (if (case map_get (subs h) c of None \<Rightarrow> False | Some s \<Rightarrow> set_has X s) \<and> readyState h c = OPEN
         then outbox h c @ [p] else outbox h c)"
    by blast
  then show ?thesis
    by (simp add: outbox_after_def broadcastToChat_def subscribed_def)
qed

lemma not_subscribed_after_unsubscribe:
  "\<not> subscribed (try_catch_ignore (do_unsubscribe c X h)) c X"
  by (simp add: subscribed_def subs_do_unsubscribe map_get_map_set set_has_def set_delete_def
      split: option.splits)

lemma hub_xy_eval:
  "subs hub_xy = [(3, [chat_x, chat_y])]"
  "readyState hub_xy 3 = OPEN"
  "outbox hub_xy 3 = [Subscribed chat_x, Subscribed chat_y]"
  by (simp_all add: hub_xy_def init_hub_def on_connection_def on_message_def do_subscribe_def
      ws_send_def try_catch_ignore_def chat_x_def chat_y_def js_def set_add_def set_has_def)



text \<open>
  C7: after the unsubscribe frame of connection \<open>c\<close> for chat \<open>X\<close> has been handled,
  and after any further events among which \<open>c\<close> does not subscribe to \<open>X\<close> again, a
  broadcast to \<open>X\<close> leaves what \<open>c\<close> has received unchanged. The same holds after the
  close event of \<open>c\<close> and any further events other than a connection event of the same
  socket, whatever frames still arrive on it.
\<close>

theorem no_delivery_after_unsubscribe_or_close:
  assumes "wf_hub h"
  shows "(truthy X \<and> Message c (Parsed (JStr (js ''subscribe'')) X) \<notin> set es \<longrightarrow>
            outbox_after (broadcastToChat X p
                (run es (on_message c (Parsed (JStr (js ''unsubscribe'')) X) h))) c
              = Some (outbox (run es (on_message c (Parsed (JStr (js ''unsubscribe'')) X) h)) c))
       \<and> (Connection c \<notin> set es \<longrightarrow>
            outbox_after (broadcastToChat X p (run es (on_close c h))) c
              = Some (outbox (run es (on_close c h)) c))"
proof (intro conjI impI)
  let ?u = "Message c (Parsed (JStr (js ''unsubscribe'')) X)"
  assume a: "truthy X \<and> Message c (Parsed (JStr (js ''subscribe'')) X) \<notin> set es"
  have ne: "js ''unsubscribe'' \<noteq> js ''subscribe''"
    by (simp add: js_def)
  from a ne have h1: "on_message c (Parsed (JStr (js ''unsubscribe'')) X) h
      = try_catch_ignore (do_unsubscribe c X h)"
    by (simp add: on_message_def)
  have wf1: "wf_hub (step ?u h)"
    using assms by (rule wf_hub_step)
  have "\<not> subscribed (step ?u h) c X"
    using h1 not_subscribed_after_unsubscribe [of c X h] by simp
  with wf1 a have "\<not> subscribed (run es (step ?u h)) c X"
    by (intro not_subscribed_run) auto
  moreover from wf1 have "wf_hub (run es (step ?u h))"
    by (rule wf_hub_run)
  ultimately show "outbox_after (broadcastToChat X p
        (run es (on_message c (Parsed (JStr (js ''unsubscribe'')) X) h))) c
      = Some (outbox (run es (on_message c (Parsed (JStr (js ''unsubscribe'')) X) h)) c)"
    using broadcast_outbox [of "run es (step ?u h)" X p c] by simp
next
  assume a: "Connection c \<notin> set es"
  have wf1: "wf_hub (step (Close c) h)"
    using assms by (rule wf_hub_step)
  have "map_get (subs (step (Close c) h)) c = None"
    by (simp add: on_close_def map_get_map_delete)
  with wf1 a have "map_get (subs (run es (step (Close c) h))) c = None"
    by (intro unregistered_run) auto
  then have "\<not> subscribed (run es (step (Close c) h)) c X"
    by (simp add: subscribed_def)
  moreover from wf1 have "wf_hub (run es (step (Close c) h))"
    by (rule wf_hub_run)
  ultimately show "outbox_after (broadcastToChat X p (run es (on_close c h))) c
      = Some (outbox (run es (on_close c h)) c)"
    using broadcast_outbox [of "run es (step (Close c) h)" X p c] by simp
qed

theorem no_delivery_after_unsubscribe_or_close_witness:
  "wf_hub hub_xy \<and> truthy chat_x \<and>
   Message 3 (Parsed (JStr (js ''subscribe'')) chat_x) \<notin> set later_events \<and>
   Connection 3 \<notin> set later_events \<and>
   outbox_after (broadcastToChat chat_x (MessageEv 9)
       (run later_events (on_message 3 (Parsed (JStr (js ''unsubscribe'')) chat_x) hub_xy))) 3
     = Some (outbox (run later_events (on_message 3 (Parsed (JStr (js ''unsubscribe'')) chat_x) hub_xy)) 3) \<and>
   outbox_after (broadcastToChat chat_x (MessageEv 9) (run later_events (on_close 3 hub_xy))) 3
     = Some (outbox (run later_events (on_close 3 hub_xy)) 3)"
proof -
  have wf: "wf_hub hub_xy"
    by (simp add: wf_hub_def hub_xy_eval)
  have t: "truthy chat_x"
    by (simp add: chat_x_def js_def)
  have n1: "Message 3 (Parsed (JStr (js ''subscribe'')) chat_x) \<notin> set later_events"
    by (simp add: later_events_def chat_x_def chat_z_def js_def)
  have n2: "Connection 3 \<notin> set later_events"
    by (simp add: later_events_def)
  show ?thesis
    using wf t n1 n2
      no_delivery_after_unsubscribe_or_close [OF wf, of chat_x 3 later_events "MessageEv 9"]
    by simp
qed





section \<open>Properties of the encodings\<close>

lemma map_unat_of_nat8:
  "\<forall>x \<in> set xs. x < 256 \<Longrightarrow> map unat (map of_nat xs :: byte list) = xs"
  by (induction xs) (simp_all add: unat_of_nat)

lemma map_low_byte_of_nat:
  "\<forall>x \<in> set xs. x < 256 \<Longrightarrow> map (\<lambda>c. unat c mod 256) (map of_nat xs :: cu list) = xs"
  by (induction xs) (simp_all add: unat_of_nat)

lemma map_of_nat_unat: "map of_nat (map unat ws) = (ws :: 'a::len word list)"
  by (induction ws) simp_all

lemma unat_byte_less: "\<forall>x \<in> set (map unat (bs :: byte list)). x < 256"
proof -
  have "unat b < 256" for b :: byte
    using unsigned_less [of b, where 'a = nat] by simp
  then show ?thesis by simp
qed

lemma unat_cu_less: "\<forall>x \<in> set (map unat (s :: cu list)). x < 65536"
proof -
  have "unat c < 65536" for c :: cu
    using unsigned_less [of c, where 'a = nat] by simp
  then show ?thesis by simp
qed

subsection \<open>Base64 round trip\<close>

lemma b64char_less: "b64char n < 128"
  unfolding b64char_def by (simp split: if_splits) arith

lemma b64char_not_pad: "b64char n \<noteq> 61"
  unfolding b64char_def by (simp split: if_splits) arith

lemma unbase64_b64char: "n < 64 \<Longrightarrow> unbase64 (b64char n) = Some n"
  unfolding b64char_def unbase64_def by (simp split: if_splits) arith

lemma b64_sextets_char:
  "n < 64 \<Longrightarrow> b64_sextets (b64char n # cs) = n # b64_sextets cs"
  by (simp add: b64char_not_pad unbase64_b64char)

lemma b64_encode_bytes_less: "\<forall>c \<in> set (b64_encode_bytes bs). c < 256"
proof -
  have "b64char n < 256" for n
    using b64char_less [of n] by simp
  then show ?thesis
    by (induction bs rule: b64_encode_bytes.induct) simp_all
qed

lemma b64_sextets_group:
  assumes "n1 < 64" and "n2 < 64"
  shows "b64_sextets [b64char n1, b64char n2, 61, 61] = [n1, n2]"
    and "n3 < 64 \<Longrightarrow> b64_sextets [b64char n1, b64char n2, b64char n3, 61] = [n1, n2, n3]"
    and "n3 < 64 \<Longrightarrow> n4 < 64 \<Longrightarrow>
         b64_sextets ([b64char n1, b64char n2, b64char n3, b64char n4] @ cs)
           = n1 # n2 # n3 # n4 # b64_sextets cs"
  using assms by (simp_all add: b64char_not_pad unbase64_b64char)

lemma div_mult_add: "y < k \<Longrightarrow> (x * k + y) div k = (x::nat)"
  by simp

lemma mod_mult_add: "y < k \<Longrightarrow> (x * k + y) mod k = (y::nat)"
  by simp

lemma b64_join:
  fixes a b c :: nat
  assumes "a < 256" and "b < 256" and "c < 256"
  shows "(a div 4) * 4 + ((a mod 4) * 16 + b div 16) div 16 = a"
    and "(((a mod 4) * 16 + b div 16) mod 16) * 16 + ((b mod 16) * 4 + c div 64) div 4 = b"
    and "(((b mod 16) * 4 + c div 64) mod 4) * 64 + c mod 64 = c"
proof -
  from assms have b: "b div 16 < 16" and c: "c div 64 < 4"
    by simp_all
  show "(a div 4) * 4 + ((a mod 4) * 16 + b div 16) div 16 = a"
    by (simp only: div_mult_add [OF b] div_mult_mod_eq)
  show "(((a mod 4) * 16 + b div 16) mod 16) * 16 + ((b mod 16) * 4 + c div 64) div 4 = b"
    by (simp only: mod_mult_add [OF b] div_mult_add [OF c] div_mult_mod_eq)
  show "(((b mod 16) * 4 + c div 64) mod 4) * 64 + c mod 64 = c"
    by (simp only: mod_mult_add [OF c] div_mult_mod_eq)
qed

lemma b64_roundtrip_bytes:
  "\<forall>x \<in> set bs. x < 256 \<Longrightarrow> b64_decode_sextets (b64_sextets (b64_encode_bytes bs)) = bs"
proof (induction bs rule: b64_encode_bytes.induct)
  case 1
  then show ?case by simp
next
  case (2 a)
  then have a: "a < 256" by simp
  then have lt: "a div 4 < 64" "(a mod 4) * 16 < 64" by simp_all
  have "b64_sextets (b64_encode_bytes [a]) = [a div 4, (a mod 4) * 16]"
    using b64_sextets_group(1) [OF lt] by simp
  moreover have "(a div 4) * 4 + ((a mod 4) * 16) div 16 = a"
    by simp
  ultimately show ?case by simp
next
  case (3 a b)
  then have ab: "a < 256" "b < 256" by simp_all
  then have "b div 16 < 16" by simp
  with ab have lt: "a div 4 < 64" "(a mod 4) * 16 + b div 16 < 64" "(b mod 16) * 4 < 64"
    using mod_less_divisor [of 4 a] by simp_all
  have "b64_sextets (b64_encode_bytes [a, b])
      = [a div 4, (a mod 4) * 16 + b div 16, (b mod 16) * 4]"
    using b64_sextets_group(2) [OF lt] by simp
  moreover have "(a div 4) * 4 + ((a mod 4) * 16 + b div 16) div 16 = a"
    using b64_join(1) [OF ab, of 0] by simp
  moreover have "(((a mod 4) * 16 + b div 16) mod 16) * 16 + ((b mod 16) * 4) div 4 = b"
    using b64_join(2) [OF ab, of 0] by simp
  ultimately show ?case by simp
next
  case (4 a b c r)
  then have abc: "a < 256" "b < 256" "c < 256" by simp_all
  then have "b div 16 < 16" "c div 64 < 4" by simp_all
  with abc have lt: "a div 4 < 64" "(a mod 4) * 16 + b div 16 < 64"
    "(b mod 16) * 4 + c div 64 < 64" "c mod 64 < 64"
    using mod_less_divisor [of 4 a] mod_less_divisor [of 16 b] by simp_all
  from 4 have ih: "b64_decode_sextets (b64_sextets (b64_encode_bytes r)) = r" by simp
  have "b64_sextets (b64_encode_bytes (a # b # c # r))
      = a div 4 # ((a mod 4) * 16 + b div 16) # ((b mod 16) * 4 + c div 64) # c mod 64
          # b64_sextets (b64_encode_bytes r)"
    using b64_sextets_group(3) [OF lt] by simp
  moreover note b64_join [OF abc]
  ultimately show ?case
    using ih by simp
qed

lemma base64_roundtrip: "base64_decode (base64_encode bs) = bs"
proof -
  have lt: "\<forall>x \<in> set (map unat bs). x < 256"
    by (rule unat_byte_less)
  have "\<forall>c \<in> set (b64_encode_bytes (map unat bs)). c < 256"
    by (rule b64_encode_bytes_less)
  then have "map (\<lambda>c. unat c mod 256) (base64_encode bs) = b64_encode_bytes (map unat bs)"
    unfolding base64_encode_def by (rule map_low_byte_of_nat)
  then have "base64_decode (base64_encode bs) = map of_nat (map unat bs)"
    using b64_roundtrip_bytes [OF lt] by (simp add: base64_decode_def)
  then show ?thesis
    by (simp only: map_of_nat_unat)
qed

subsection \<open>UTF-8 round trip\<close>

lemma join64: "q = a * 64 + b \<Longrightarrow> n = q * 64 + c \<Longrightarrow> n = a * 4096 + b * 64 + (c::nat)"
  by simp

lemma join64': "q = a * 64 + b \<Longrightarrow> n = q * 4096 + c \<Longrightarrow> n = a * 262144 + b * 4096 + (c::nat)"
  by simp

lemma digits64:
  fixes cp :: nat
  shows "cp = (cp div 64) * 64 + cp mod 64"
    and "cp = (cp div 4096) * 4096 + (cp div 64 mod 64) * 64 + cp mod 64"
    and "cp = (cp div 262144) * 262144 + (cp div 4096 mod 64) * 4096
               + ((cp div 64 mod 64) * 64 + cp mod 64)"
proof -
  show 1: "cp = (cp div 64) * 64 + cp mod 64"
    by simp
  have 2: "cp div 64 = (cp div 4096) * 64 + cp div 64 mod 64"
    using div_mult_mod_eq [of "cp div 64" 64] by (simp add: div_mult2_eq [symmetric])
  show 3: "cp = (cp div 4096) * 4096 + (cp div 64 mod 64) * 64 + cp mod 64"
    using 2 1 by (rule join64)
  have 4: "cp div 4096 = (cp div 262144) * 64 + cp div 4096 mod 64"
    using div_mult_mod_eq [of "cp div 4096" 64] by (simp add: div_mult2_eq [symmetric])
  have 5: "cp = (cp div 4096) * 4096 + ((cp div 64 mod 64) * 64 + cp mod 64)"
    using 3 by (simp only: add.assoc)
  show "cp = (cp div 262144) * 262144 + (cp div 4096 mod 64) * 4096
               + ((cp div 64 mod 64) * 64 + cp mod 64)"
    using 4 5 by (rule join64')
qed


lemma dec_2byte:
  assumes "2 \<le> a" and "a < 32" and "b < 64"
  shows "utf8_decode_units ([0xC0 + a, 0x80 + b] @ bs) = (a * 64 + b) # utf8_decode_units bs"
  using assms by (simp add: is_cont_def)

lemma dec_3byte:
  assumes "a < 16" and "b < 64" and "c < 64" and "a = 0 \<longrightarrow> 32 \<le> b" and "a = 13 \<longrightarrow> b < 32"
  shows "utf8_decode_units ([0xE0 + a, 0x80 + b, 0x80 + c] @ bs)
           = (a * 4096 + b * 64 + c) # utf8_decode_units bs"
  using assms by (auto simp: is_cont_def second_ok_def)

lemma dec_4byte:
  assumes "a < 5" and "b < 64" and "c < 64" and "d < 64"
    and "a = 0 \<longrightarrow> 16 \<le> b" and "a = 4 \<longrightarrow> b < 16"
  shows "utf8_decode_units ([0xF0 + a, 0x80 + b, 0x80 + c, 0x80 + d] @ bs)
           = units_of_cp (a * 262144 + b * 4096 + (c * 64 + d)) @ utf8_decode_units bs"
  using assms by (auto simp: is_cont_def second_ok_def add.assoc)

lemma decode_cp_small:
  assumes "cp < 0x10000" and "\<not> is_high cp" and "\<not> is_low cp"
  shows "utf8_decode_units (utf8_cp cp @ bs) = cp # utf8_decode_units bs"
proof -
  consider "cp < 0x80" | "0x80 \<le> cp" "cp < 0x800" | "0x800 \<le> cp"
    by linarith
  then show ?thesis
  proof cases
    case 1
    then show ?thesis by (simp add: utf8_cp_def)
  next
    case 2
    define a where "a = cp div 64"
    define b where "b = cp mod 64"
    have eq: "cp = a * 64 + b" and b: "b < 64"
      by (simp_all add: a_def b_def)
    from 2 eq b have a: "2 \<le> a" "a < 32"
      by linarith+
    from 2 have "utf8_cp cp = [0xC0 + a, 0x80 + b]"
      by (simp add: utf8_cp_def a_def b_def)
    then show ?thesis
      using dec_2byte [OF a b, of bs] eq by simp
  next
    case 3
    define a where "a = cp div 4096"
    define b where "b = cp div 64 mod 64"
    define c where "c = cp mod 64"
    have eq: "cp = a * 4096 + b * 64 + c" and b: "b < 64" and c: "c < 64"
      using digits64(2) [of cp] by (simp_all add: a_def b_def c_def)
    from assms(1) eq have a: "a < 16"
      by linarith
    from 3 eq c have a0: "a = 0 \<longrightarrow> 32 \<le> b"
      by auto
    from assms(2,3) eq b c have a13: "a = 13 \<longrightarrow> b < 32"
      by (auto simp: is_high_def is_low_def)
    from 3 assms(1) have "utf8_cp cp = [0xE0 + a, 0x80 + b, 0x80 + c]"
      by (simp add: utf8_cp_def a_def b_def c_def)
    then show ?thesis
      using dec_3byte [OF a b c a0 a13, of bs] eq by simp
  qed
qed

lemma decode_cp_large:
  assumes "0x10000 \<le> cp" and "cp < 0x110000"
  shows "utf8_decode_units (utf8_cp cp @ bs) = units_of_cp cp @ utf8_decode_units bs"
proof -
  define a where "a = cp div 262144"
  define b where "b = cp div 4096 mod 64"
  define c where "c = cp div 64 mod 64"
  define d where "d = cp mod 64"
  have eq: "cp = a * 262144 + b * 4096 + (c * 64 + d)" and b: "b < 64" and c: "c < 64" and d: "d < 64"
    using digits64(3) [of cp] by (simp_all add: a_def b_def c_def d_def)
  from assms(2) eq have a: "a < 5"
    by linarith
  from assms(1) eq c d have a0: "a = 0 \<longrightarrow> 16 \<le> b"
    by auto
  from assms(2) eq have a4: "a = 4 \<longrightarrow> b < 16"
    by auto
  from assms(1) have "utf8_cp cp = [0xF0 + a, 0x80 + b, 0x80 + c, 0x80 + d]"
    by (simp add: utf8_cp_def a_def b_def c_def d_def)
  then show ?thesis
    using dec_4byte [OF a b c d a0 a4, of bs] eq by simp
qed

lemma units_of_pair_cp:
  assumes "is_high hi" and "is_low lo"
  shows "units_of_cp (pair_cp hi lo) = [hi, lo]"
    and "0x10000 \<le> pair_cp hi lo" and "pair_cp hi lo < 0x110000"
proof -
  define h where "h = hi - 0xD800"
  define l where "l = lo - 0xDC00"
  from assms have hi: "hi = 0xD800 + h" and lo: "lo = 0xDC00 + l" and h: "h < 1024" and l: "l < 1024"
    by (auto simp: is_high_def is_low_def h_def l_def)
  have p: "pair_cp hi lo = 0x10000 + (h * 1024 + l)"
    by (simp add: pair_cp_def h_def l_def)
  show "0x10000 \<le> pair_cp hi lo"
    by (simp add: p)
  show "pair_cp hi lo < 0x110000"
    using h l by (simp add: p)
  have "units_of_cp (0x10000 + (h * 1024 + l)) = [0xD800 + h, 0xDC00 + l]"
    using l by (simp add: units_of_cp_def)
  then show "units_of_cp (pair_cp hi lo) = [hi, lo]"
    by (simp only: p hi [symmetric] lo [symmetric])
qed

lemma utf8_roundtrip_units:
  assumes "well_formed_units cs" and "\<forall>c \<in> set cs. c < 0x10000"
  shows "utf8_decode_units (utf8_encode_units cs) = cs"
  using assms
proof (induction cs rule: utf8_encode_units.induct)
  case 1
  then show ?case by simp
next
  case (2 c)
  then show ?case
    using decode_cp_small [of c "[]"] by simp
next
  case (3 c d cs)
  show ?case
  proof (cases "is_high c")
    case True
    with "3.prems" have low: "is_low d" and wf: "well_formed_units cs"
      by simp_all
    from "3.IH"(1) True low wf "3.prems"(2)
    have ih: "utf8_decode_units (utf8_encode_units cs) = cs"
      by simp
    note u = units_of_pair_cp [OF True low]
    show ?thesis
      using True low ih decode_cp_large [OF u(2,3), of "utf8_encode_units cs"] u(1)
      by simp
  next
    case False
    with "3.prems" have nl: "\<not> is_low c" and wf: "well_formed_units (d # cs)"
      by simp_all
    from "3.IH"(3) False nl wf "3.prems"(2)
    have ih: "utf8_decode_units (utf8_encode_units (d # cs)) = d # cs"
      by simp
    from "3.prems"(2) have "c < 0x10000"
      by simp
    then show ?thesis
      using False nl ih decode_cp_small [of c "utf8_encode_units (d # cs)"]
      by simp
  qed
qed

lemma mod64_less128: "m mod 64 < (128::nat)"
proof -
  have "m mod 64 < 64" by simp
  then show ?thesis by linarith
qed

lemma utf8_cp_less:
  assumes "cp < 0x110000"
  shows "\<forall>b \<in> set (utf8_cp cp). b < 256"
proof -
  have "cp div 64 < 64" if "cp < 0x800"
    using that by simp
  moreover have "cp div 4096 < 32" if "cp < 0x10000"
    using that by simp
  moreover have "cp div 262144 < 16"
    using assms by simp
  ultimately show ?thesis
    unfolding utf8_cp_def by (simp add: mod64_less128)
qed

lemma utf8_encode_units_less:
  assumes "\<forall>c \<in> set cs. c < 0x10000"
  shows "\<forall>b \<in> set (utf8_encode_units cs). b < 256"
  using assms
proof (induction cs rule: utf8_encode_units.induct)
  case 1
  then show ?case by simp
next
  case (2 c)
  then have "c < 0x110000" by simp
  from utf8_cp_less [OF this] show ?case by simp
next
  case (3 c d cs)
  then have "c < 0x110000" by simp
  note small = utf8_cp_less [OF this]
  show ?case
  proof (cases "is_high c \<and> is_low d")
    case True
    then have "pair_cp c d < 0x110000"
      using units_of_pair_cp(3) by simp
    from utf8_cp_less [OF this] True 3 show ?thesis
      by auto
  next
    case False
    with 3 small show ?thesis
      by auto
  qed
qed

lemma utf8_roundtrip:
  assumes "isWellFormed s"
  shows "utf8_decode (utf8_encode s) = s"
proof -
  have lt: "\<forall>c \<in> set (map unat s). c < 0x10000"
    using unat_cu_less [of s] by simp
  then have "\<forall>b \<in> set (utf8_encode_units (map unat s)). b < 256"
    by (rule utf8_encode_units_less)
  then have "map unat (utf8_encode s) = utf8_encode_units (map unat s)"
    unfolding utf8_encode_def by (rule map_unat_of_nat8)
  moreover have "utf8_decode_units (utf8_encode_units (map unat s)) = map unat s"
    using assms lt unfolding isWellFormed_def by (rule utf8_roundtrip_units)
  ultimately have "utf8_decode (utf8_encode s) = map of_nat (map unat s)"
    by (simp add: utf8_decode_def)
  then show ?thesis
    by (simp only: map_of_nat_unat)
qed

section \<open>Properties of the message codec\<close>

subsection \<open>Lengths in the block cipher\<close>

lemma length_xor_bytes: "length (xor_bytes xs ys) = min (length xs) (length ys)"
  by (simp add: xor_bytes_def)

lemma length_chunks: "length (chunks n xs k) = k"
  by (induction k arbitrary: xs) simp_all

lemma chunks_lengths:
  "k * n \<le> length xs \<Longrightarrow> \<forall>c \<in> set (chunks n xs k). length c = n"
proof (induction k arbitrary: xs)
  case 0
  then show ?case by simp
next
  case (Suc k)
  from Suc.prems have le: "n + k * n \<le> length xs"
    by simp
  then have n: "n \<le> length xs"
    by (rule add_leD1)
  from le have "k * n + n \<le> length xs"
    by (simp only: add.commute)
  then have "k * n \<le> length xs - n"
    by (simp only: le_diff_conv2 [OF n])
  then have "k * n \<le> length (drop n xs)"
    by (simp only: length_drop)
  then have "\<forall>c \<in> set (chunks n (drop n xs) k). length c = n"
    by (rule Suc.IH)
  moreover have "length (take n xs) = n"
    using n by (simp only: length_take min_absorb2)
  ultimately show ?case
    by (simp only: chunks.simps list.set ball_simps simp_thms)
qed

lemma words_ok_expand_step:
  assumes "words_ok n w" and "8 \<le> n"
  shows "words_ok (Suc n) (expand_step n w)"
proof -
  from assms have len: "length w = n" and all4: "\<forall>x \<in> set w. length x = 4"
    by (simp_all add: words_ok_def list_all_iff)
  from len assms(2) have "w ! (n - 1) \<in> set w" and "w ! (n - 8) \<in> set w"
    by simp_all
  with all4 have l1: "length (w ! (n - 1)) = 4" and l8: "length (w ! (n - 8)) = 4"
    by simp_all
  then show ?thesis
    using len all4
    by (simp add: words_ok_def list_all_iff expand_step_def Let_def length_xor_bytes
        sub_bytes_def rot_word_def)
qed

lemma words_ok_fold:
  assumes "words_ok n w" and "8 \<le> n"
  shows "words_ok (n + m) (fold expand_step [n..<n + m] w)"
  using assms
proof (induction m arbitrary: n w)
  case 0
  then show ?case by simp
next
  case (Suc m)
  have "[n..<n + Suc m] = n # [Suc n..<Suc n + m]"
    by (simp add: upt_conv_Cons)
  moreover from Suc.prems have "words_ok (Suc n) (expand_step n w)"
    by (rule words_ok_expand_step)
  then have "words_ok (Suc n + m) (fold expand_step [Suc n..<Suc n + m] (expand_step n w))"
    using Suc.prems(2) by (intro Suc.IH) simp_all
  ultimately show ?case by simp
qed

lemma words_ok_key_expansion:
  assumes "length k = 32"
  shows "words_ok 60 (key_expansion k)"
proof -
  from assms have "words_ok 8 (chunks 4 k 8)"
    using chunks_lengths [of 8 4 k] by (simp add: words_ok_def list_all_iff length_chunks)
  then have "words_ok (8 + 52) (fold expand_step [8..<8 + 52] (chunks 4 k 8))"
    by (rule words_ok_fold) simp
  moreover have "(8::nat) + 52 = 60"
    by simp
  ultimately show ?thesis
    by (simp only: key_expansion_def)
qed

lemma length_concat_const:
  "\<forall>x \<in> set ws. length x = n \<Longrightarrow> length (concat ws) = length ws * n"
  by (induction ws) simp_all

lemma length_round_key:
  assumes "words_ok 60 w" and "r \<le> 14"
  shows "length (round_key w r) = 16"
proof -
  let ?ws = "take 4 (drop (4 * r) w)"
  from assms have "length ?ws = 4"
    by (simp add: words_ok_def)
  moreover from assms have "\<forall>x \<in> set ?ws. length x = 4"
    by (auto simp: words_ok_def list_all_iff dest: in_set_takeD in_set_dropD)
  ultimately have "length (concat ?ws) = 16"
    using length_concat_const [of ?ws 4] by simp
  then show ?thesis
    by (simp add: round_key_def)
qed

lemma length_shift_rows: "length (shift_rows s) = 16"
  by (simp add: shift_rows_def)

lemma length_aes256_encrypt_block:
  assumes "length k = 32"
  shows "length (aes256_encrypt_block k blk) = 16"
proof -
  from assms have "words_ok 60 (key_expansion k)"
    by (rule words_ok_key_expansion)
  then have "length (round_key (key_expansion k) 14) = 16"
    by (rule length_round_key) simp
  then show ?thesis
    by (simp add: aes256_encrypt_block_def Let_def length_xor_bytes length_shift_rows)
qed

subsection \<open>Counter mode is its own inverse\<close>

lemma xor_bytes_cancel:
  "length xs \<le> length ys \<Longrightarrow> xor_bytes (xor_bytes xs ys) ys = xs"
proof (induction xs arbitrary: ys)
  case Nil
  then show ?case by (simp add: xor_bytes_def)
next
  case (Cons x xs)
  then obtain y ys' where ys: "ys = y # ys'"
    by (cases ys) auto
  with Cons.prems have "length xs \<le> length ys'"
    by simp
  then have "xor_bytes (xor_bytes xs ys') ys' = xs"
    by (rule Cons.IH)
  moreover have "(x XOR y) XOR y = x"
    by (simp add: xor.assoc)
  ultimately show ?case
    by (simp add: ys xor_bytes_def)
qed

lemma gctr_unfold:
  "xs \<noteq> [] \<Longrightarrow> gctr k cb xs
     = xor_bytes (take 16 xs) (aes256_encrypt_block k cb) @ gctr k (inc32 cb) (drop 16 xs)"
  by (simp add: gctr.simps)

lemma gctr_Nil: "gctr k cb [] = []"
  by (simp add: gctr.simps)

lemma length_gctr:
  "length k = 32 \<Longrightarrow> length (gctr k cb xs) = length xs"
proof (induction k cb xs rule: gctr.induct)
  case (1 k cb xs)
  show ?case
  proof (cases "xs = []")
    case True
    then show ?thesis by (simp only: gctr_Nil)
  next
    case False
    from "1.prems" have e: "length (aes256_encrypt_block k cb) = 16"
      by (rule length_aes256_encrypt_block)
    from "1.IH" [OF False "1.prems"]
    have ih: "length (gctr k (inc32 cb) (drop 16 xs)) = length (drop 16 xs)" .
    have "length (gctr k cb xs)
        = min (length (take 16 xs)) 16 + length (drop 16 xs)"
      by (simp only: gctr_unfold [OF False] length_append length_xor_bytes e ih)
    also have "\<dots> = length xs"
      by simp
    finally show ?thesis .
  qed
qed

lemma gctr_involution:
  "length k = 32 \<Longrightarrow> gctr k cb (gctr k cb xs) = xs"
proof (induction k cb xs rule: gctr.induct)
  case (1 k cb xs)
  show ?case
  proof (cases "xs = []")
    case True
    then show ?thesis by (simp only: gctr_Nil)
  next
    case False
    let ?e = "aes256_encrypt_block k cb"
    let ?x = "xor_bytes (take 16 xs) ?e"
    let ?r = "gctr k (inc32 cb) (drop 16 xs)"
    from "1.prems" have e: "length ?e = 16"
      by (rule length_aes256_encrypt_block)
    from "1.IH" [OF False "1.prems"] have ih: "gctr k (inc32 cb) ?r = drop 16 xs" .
    have g: "gctr k cb xs = ?x @ ?r"
      by (rule gctr_unfold [OF False])
    have lx: "length ?x = min (length xs) 16"
      by (simp add: length_xor_bytes e)
    have lr: "length ?r = length xs - 16"
      using length_gctr [OF "1.prems", of "inc32 cb" "drop 16 xs"] by simp
    from False lx have ne: "?x @ ?r \<noteq> []"
      by (cases xs) auto
    have tk: "take 16 (?x @ ?r) = ?x"
    proof (cases "16 \<le> length xs")
      case True
      with lx show ?thesis by simp
    next
      case False
      with lx lr show ?thesis by simp
    qed
    have dr: "drop 16 (?x @ ?r) = ?r"
    proof (cases "16 \<le> length xs")
      case True
      with lx show ?thesis by simp
    next
      case False
      with lx lr show ?thesis by simp
    qed
    have undo: "xor_bytes ?x ?e = take 16 xs"
      by (rule xor_bytes_cancel) (simp add: e)
    have "gctr k cb (?x @ ?r) = xor_bytes (take 16 (?x @ ?r)) ?e @ gctr k (inc32 cb) (drop 16 (?x @ ?r))"
      by (rule gctr_unfold [OF ne])
    also have "\<dots> = take 16 xs @ drop 16 xs"
      by (simp only: tk dr undo ih)
    also have "\<dots> = xs"
      by simp
    finally show ?thesis
      by (simp only: g)
  qed
qed

lemma length_word_block: "length (word_block w) = 16"
  by (simp add: word_block_def)

lemma length_gcm_tag:
  "length k = 32 \<Longrightarrow> length (gcm_tag k ivb c) = 16"
  by (simp add: gcm_tag_def length_xor_bytes length_word_block length_aes256_encrypt_block)

lemma gcm_crypt_involution:
  "length k = 32 \<Longrightarrow> gcm_crypt k ivb (gcm_crypt k ivb xs) = xs"
  by (simp add: gcm_crypt_def gctr_involution)

lemma length_randomBytes12: "length (randomBytes12 r) = 12"
  by (simp add: randomBytes12_def)

subsection \<open>Slicing the tag off\<close>

lemma buf_slice_tag:
  assumes "length t = 16"
  shows "buf_slice (c @ t) (int (length (c @ t)) - 16) (int (length (c @ t))) = t"
    and "buf_slice (c @ t) 0 (int (length (c @ t)) - 16) = c"
  using assms by (simp_all add: buf_slice_def clamp_index_def Let_def)

subsection \<open>Round trip of the codec\<close>

lemma encrypt_ok:
  assumes "length (utf8_encode key) = 32"
  shows "encrypt key rnd text = Inr (seal key rnd text)"
proof -
  have "randomBytes12 rnd \<noteq> []"
    using length_randomBytes12 [of rnd] by auto
  with assms show ?thesis
    by (simp add: encrypt_def seal_def cipher_args_error_def Let_def)
qed

lemma decrypt_sealed:
  assumes k: "length (utf8_encode key) = 32" and nonempty: "ivb \<noteq> []"
  shows "decrypt key
           (base64_encode (gcm_crypt (utf8_encode key) ivb p
                           @ gcm_tag (utf8_encode key) ivb (gcm_crypt (utf8_encode key) ivb p)))
           (base64_encode ivb)
         = Inr (utf8_decode p)"
proof -
  let ?k = "utf8_encode key"
  let ?c = "gcm_crypt ?k ivb p"
  let ?t = "gcm_tag ?k ivb ?c"
  have t: "length ?t = 16"
    using k by (rule length_gcm_tag)
  note sl = buf_slice_tag [OF t, of ?c]
  have undo: "gcm_crypt ?k ivb ?c = p"
    using k by (rule gcm_crypt_involution)
  show ?thesis
    unfolding decrypt_def Let_def base64_roundtrip sl
    using k nonempty t by (simp add: cipher_args_error_def undo)
qed

lemma decrypt_seal:
  assumes "length (utf8_encode key) = 32"
  shows "decrypt key (data (seal key rnd text)) (iv (seal key rnd text))
           = Inr (utf8_decode (utf8_encode text))"
proof -
  have "randomBytes12 rnd \<noteq> []"
    using length_randomBytes12 [of rnd] by auto
  from decrypt_sealed [OF assms this, of "utf8_encode text"] show ?thesis
    by (simp add: seal_def Let_def)
qed

lemma round_trip_result:
  assumes "length (utf8_encode key) = 32"
  shows "round_trip key rnd text = Inr (utf8_decode (utf8_encode text))"
  by (simp add: round_trip_def encrypt_ok [OF assms] decrypt_seal [OF assms])

lemma default_key_length: "length (utf8_encode (ENCRYPTION_KEY None)) = 32"
  by (simp add: ENCRYPTION_KEY_def or_default_def DEFAULT_KEY_def padEnd_def slice0_def js_def
      utf8_encode_def utf8_cp_def is_high_def is_low_def)

text \<open>
  C4 (as amended): under a key whose UTF-8 form is 32 bytes, decrypting what
  \<^verbatim>\<open>encrypt\<close> returned for a well-formed string (one without unpaired surrogate), with
  any 12 random bytes, returns that string; the empty string and strings with multi-byte
  characters are well formed.
\<close>

theorem decrypt_encrypt_round_trip:
  assumes "length (utf8_encode key) = 32" and "isWellFormed m"
  shows "round_trip key rnd m = Inr m"
  using round_trip_result [OF assms(1), of rnd m] utf8_roundtrip [OF assms(2)] by simp

theorem decrypt_encrypt_round_trip_witness:
  "length (utf8_encode (ENCRYPTION_KEY None)) = 32 \<and>
   isWellFormed [0x68, 0xE9, 0x20AC, 0xD83D, 0xDE00] \<and>
   round_trip (ENCRYPTION_KEY None) 0x0102030405060708090A0B0C [0x68, 0xE9, 0x20AC, 0xD83D, 0xDE00]
     = Inr [0x68, 0xE9, 0x20AC, 0xD83D, 0xDE00] \<and>
   isWellFormed [] \<and> round_trip (ENCRYPTION_KEY None) 7 [] = Inr []"
proof -
  have wf: "isWellFormed [0x68, 0xE9, 0x20AC, 0xD83D, 0xDE00]"
    by (simp add: isWellFormed_def is_high_def is_low_def)
  have wf0: "isWellFormed []"
    by (simp add: isWellFormed_def)
  show ?thesis
    using default_key_length wf wf0
      decrypt_encrypt_round_trip [OF default_key_length wf, where rnd = "0x0102030405060708090A0B0C"]
      decrypt_encrypt_round_trip [OF default_key_length wf0, where rnd = 7]
    by simp
qed

text \<open>
  C4 as stated fails: \<^verbatim>\<open>encrypt\<close> writes an unpaired surrogate as the UTF-8 form of
  \<open>U+FFFD\<close>, so the round trip of the two code units \<open>0x68 0xD83D\<close> returns
  \<open>0x68 0xFFFD\<close>.
\<close>

theorem round_trip_lone_surrogate_counterexample:
  "length (utf8_encode (ENCRYPTION_KEY None)) = 32 \<and>
   round_trip (ENCRYPTION_KEY None) 7 [0x68, 0xD83D] = Inr [0x68, 0xFFFD]"
proof -
  have "utf8_decode (utf8_encode [0x68, 0xD83D]) = [0x68, 0xFFFD]"
    by (simp add: utf8_decode_def utf8_encode_def utf8_cp_def is_high_def is_low_def
        is_cont_def second_ok_def)
  then show ?thesis
    using default_key_length round_trip_result [OF default_key_length, of 7 "[0x68, 0xD83D]"]
    by simp
qed

section \<open>Properties of the configuration\<close>






text \<open>
  A value that is not ASCII can give a key that is not 32 bytes long, and it is not
  rejected at start either: 32 times the letter \<open>U+00E9\<close> is 64 bytes, is used as it is,
  and every later call of \<^verbatim>\<open>encrypt\<close> throws.
\<close>

lemma ENCRYPTION_KEY_non_ascii_example:
  "ENCRYPTION_KEY (Some (replicate 32 0xE9)) = replicate 32 0xE9"
  "length (utf8_encode (replicate 32 0xE9)) = 64"
  "encrypt (ENCRYPTION_KEY (Some (replicate 32 0xE9))) rnd plain = Inl InvalidKeyLength"
proof -
  show k: "ENCRYPTION_KEY (Some (replicate 32 0xE9)) = replicate 32 0xE9"
    by (simp add: ENCRYPTION_KEY_def slice0_def padEnd_def or_default_def)
  have u: "utf8_encode_units (replicate n 233) = concat (replicate n [195, 169])" for n
  proof (induction n rule: less_induct)
    case (less n)
    show ?case
    proof (cases n)
      case 0
      then show ?thesis by simp
    next
      case (Suc m)
      show ?thesis
      proof (cases m)
        case 0
        with Suc show ?thesis
          by (simp add: utf8_cp_def is_high_def is_low_def)
      next
        case (Suc k)
        with \<open>n = Suc m\<close> less.IH [of m] show ?thesis
          by (simp add: utf8_cp_def is_high_def is_low_def)
      qed
    qed
  qed
  have "map unat (replicate 32 (0xE9::cu)) = replicate 32 233"
    by simp
  moreover have "length (concat (replicate n [195, 169::nat])) = 2 * n" for n
    by (induction n) simp_all
  ultimately show l: "length (utf8_encode (replicate 32 0xE9)) = 64"
    by (simp add: utf8_encode_def u)
  then show "encrypt (ENCRYPTION_KEY (Some (replicate 32 0xE9))) rnd plain = Inl InvalidKeyLength"
    by (simp add: k encrypt_def cipher_args_error_def Let_def)
qed


section \<open>Properties of the message routes\<close>

lemma decrypt_rows_fails:
  "r \<in> set rows \<Longrightarrow> decrypt key (content r) (msg_iv r) = Inl e
     \<Longrightarrow> \<exists>e'. decrypt_rows key rows = Inl e'"
  by (induction rows) (auto split: sum.splits)

lemma decrypts_toI:
  "decrypt key (content r) (msg_iv r) = Inr t \<Longrightarrow> decrypts_to key r (to_message r t)"
  by (simp add: decrypts_to_def)

lemma decrypts_toD:
  "decrypts_to key r m \<Longrightarrow> message_id m = msg_id r \<and> message_created_at m = created_at r"
  by (auto simp: decrypts_to_def to_message_def split: sum.splits)

lemma decrypt_rows_all:
  "\<forall>r \<in> set rows. \<not> isl (decrypt key (content r) (msg_iv r))
     \<Longrightarrow> \<exists>ms. decrypt_rows key rows = Inr ms \<and> list_all2 (decrypts_to key) rows ms"
proof (induction rows)
  case Nil
  then show ?case by simp
next
  case (Cons r rows)
  then obtain ms where ms: "decrypt_rows key rows = Inr ms" "list_all2 (decrypts_to key) rows ms"
    by auto
  from Cons.prems obtain t where "decrypt key (content r) (msg_iv r) = Inr t"
    by (cases "decrypt key (content r) (msg_iv r)") auto
  with ms show ?case
    by (simp add: decrypts_toI)
qed

lemma decrypt_rows_Inr:
  "decrypt_rows key rows = Inr ms \<Longrightarrow> list_all2 (decrypts_to key) rows ms"
  by (induction rows arbitrary: ms) (auto simp: decrypts_toI split: sum.splits)

lemma decrypts_to_columns:
  assumes "list_all2 (decrypts_to key) rows ms"
  shows "map message_id ms = map msg_id rows"
    and "map message_created_at ms = map created_at rows"
  using assms by (induction rule: list_all2_induct) (auto dest: decrypts_toD)

lemma set_select_messages:
  "set (select_messages rows c) = {r \<in> set rows. chat_id r = c}"
  by (auto simp: select_messages_def)

lemma sorted_select_messages: "sorted (map created_at (select_messages rows c))"
  by (simp add: select_messages_def)

lemma mset_select_messages:
  "mset (select_messages rows c) = mset (filter (\<lambda>r. chat_id r = c) rows)"
  by (simp add: select_messages_def)

subsection \<open>The example chat\<close>

lemma example_strings:
  "chat_1_2 \<noteq> []" "js ''hi'' \<noteq> []" "js ''yo'' \<noteq> []"
  "isWellFormed (js ''hi'')" "isWellFormed (js ''yo'')"
  by (simp_all add: chat_1_2_def js_def isWellFormed_def is_high_def is_low_def)

lemma db1_eval:
  "db1 = \<lparr>users = [alice, bob], friends = [], messages = [row1], messages_id_seq = 2\<rparr>"
proof -
  have "(1::nat) \<in> set (map user_id (users db0))"
    by (simp add: db0_def alice_def)
  then show ?thesis
    using example_strings(1,2)
    by (simp add: db1_def post_message_def encrypt_ok [OF default_key_length] to_message_def
        row1_def db0_def)
qed

lemma db2_eval:
  "db2 = \<lparr>users = [alice, bob], friends = [], messages = [row1, row2], messages_id_seq = 3\<rparr>"
proof -
  have "(2::nat) \<in> set (map user_id (users db1))"
    by (simp add: db1_eval alice_def bob_def)
  then show ?thesis
    using example_strings(1,3)
    by (simp add: db2_def post_message_def encrypt_ok [OF default_key_length] to_message_def
        row2_def db1_eval)
qed

lemma decrypt_example_rows:
  "decrypt (ENCRYPTION_KEY None) (content row1) (msg_iv row1) = Inr (js ''hi'')"
  "decrypt (ENCRYPTION_KEY None) (content row2) (msg_iv row2) = Inr (js ''yo'')"
  by (simp_all add: row1_def row2_def decrypt_seal [OF default_key_length]
      utf8_roundtrip example_strings)

lemma decrypt_damaged_row:
  "decrypt (ENCRYPTION_KEY None) (content damaged_row) (msg_iv damaged_row)
     = Inl InvalidAuthTagLength"
proof -
  have "base64_decode (js ''AAAA'') = [0, 0, 0]"
    by (simp add: base64_decode_def js_def unbase64_def)
  moreover have "base64_decode (js ''AAAAAAAAAAAAAAAA'') = [0, 0, 0, 0, 0, 0, 0, 0, 0, 0, 0, 0]"
    by (simp add: base64_decode_def js_def unbase64_def)
  ultimately show ?thesis
    using default_key_length
    by (simp add: damaged_row_def decrypt_def cipher_args_error_def buf_slice_def clamp_index_def)
qed

lemma select_example:
  "select_messages (messages db2) chat_1_2 = [row2, row1]"
  "select_messages (messages db_damaged) chat_1_2 = [row2, row1, damaged_row]"
  by (simp_all add: db_damaged_def db2_eval select_messages_def row1_def row2_def damaged_row_def)

lemma get_messages_example:
  "get_messages (ENCRYPTION_KEY None) (Some chat_1_2) db2
     = Inr [to_message row2 (js ''yo''), to_message row1 (js ''hi'')]"
  using example_strings(1)
  by (simp add: get_messages_def select_example decrypt_example_rows)

lemma get_messages_damaged:
  "get_messages (ENCRYPTION_KEY None) (Some chat_1_2) db_damaged
     = Inl (HttpError 500 ''Internal server error'')"
  using example_strings(1)
  by (simp add: get_messages_def select_example decrypt_example_rows decrypt_damaged_row)

subsection \<open>History\<close>

text \<open>
  C2 (as amended): when a record of the chat fails to decrypt, the whole fetch fails
  with status 500 and the text \<^verbatim>\<open>Internal server error\<close>; no record is skipped and none is
  returned. When every record of the chat decrypts, the fetch returns the decryption of
  each of them, in the order of the query.
\<close>

theorem history_fails_as_a_whole:
  assumes "c \<noteq> []"
  shows "((\<exists>r \<in> set (messages d). chat_id r = c \<and> isl (decrypt key (content r) (msg_iv r)))
            \<longrightarrow> get_messages key (Some c) d = Inl (HttpError 500 ''Internal server error''))
       \<and> ((\<forall>r \<in> set (messages d). chat_id r = c \<longrightarrow> \<not> isl (decrypt key (content r) (msg_iv r)))
            \<longrightarrow> (\<exists>ms. get_messages key (Some c) d = Inr ms
                  \<and> list_all2 (decrypts_to key) (select_messages (messages d) c) ms))"
proof (intro conjI impI)
  assume "\<exists>r \<in> set (messages d). chat_id r = c \<and> isl (decrypt key (content r) (msg_iv r))"
  then obtain r e where "r \<in> set (select_messages (messages d) c)"
    and "decrypt key (content r) (msg_iv r) = Inl e"
    by (auto simp: set_select_messages isl_def)
  then obtain e' where "decrypt_rows key (select_messages (messages d) c) = Inl e'"
    using decrypt_rows_fails by blast
  with assms show "get_messages key (Some c) d = Inl (HttpError 500 ''Internal server error'')"
    by (simp add: get_messages_def)
next
  assume "\<forall>r \<in> set (messages d). chat_id r = c \<longrightarrow> \<not> isl (decrypt key (content r) (msg_iv r))"
  then have "\<forall>r \<in> set (select_messages (messages d) c). \<not> isl (decrypt key (content r) (msg_iv r))"
    by (simp add: set_select_messages)
  then obtain ms where "decrypt_rows key (select_messages (messages d) c) = Inr ms"
    and "list_all2 (decrypts_to key) (select_messages (messages d) c) ms"
    using decrypt_rows_all by blast
  with assms show "\<exists>ms. get_messages key (Some c) d = Inr ms
      \<and> list_all2 (decrypts_to key) (select_messages (messages d) c) ms"
    by (simp add: get_messages_def)
qed

theorem history_fails_as_a_whole_witness:
  "chat_1_2 \<noteq> [] \<and>
   damaged_row \<in> set (messages db_damaged) \<and> chat_id damaged_row = chat_1_2 \<and>
   isl (decrypt (ENCRYPTION_KEY None) (content damaged_row) (msg_iv damaged_row)) \<and>
   get_messages (ENCRYPTION_KEY None) (Some chat_1_2) db_damaged
     = Inl (HttpError 500 ''Internal server error'') \<and>
   messages db2 = [row1, row2] \<and>
   \<not> isl (decrypt (ENCRYPTION_KEY None) (content row1) (msg_iv row1)) \<and>
   \<not> isl (decrypt (ENCRYPTION_KEY None) (content row2) (msg_iv row2)) \<and>
   (\<exists>ms. get_messages (ENCRYPTION_KEY None) (Some chat_1_2) db2 = Inr ms
      \<and> list_all2 (decrypts_to (ENCRYPTION_KEY None)) (select_messages (messages db2) chat_1_2) ms)"
proof -
  have bad: "damaged_row \<in> set (messages db_damaged)" "chat_id damaged_row = chat_1_2"
    "isl (decrypt (ENCRYPTION_KEY None) (content damaged_row) (msg_iv damaged_row))"
    by (simp_all add: db_damaged_def decrypt_damaged_row) (simp add: damaged_row_def)
  have rows: "messages db2 = [row1, row2]"
    by (simp add: db2_eval)
  have good: "\<not> isl (decrypt (ENCRYPTION_KEY None) (content row1) (msg_iv row1))"
    "\<not> isl (decrypt (ENCRYPTION_KEY None) (content row2) (msg_iv row2))"
    by (simp_all add: decrypt_example_rows)
  from rows good
  have all: "\<forall>r \<in> set (messages db2). chat_id r = chat_1_2
      \<longrightarrow> \<not> isl (decrypt (ENCRYPTION_KEY None) (content r) (msg_iv r))"
    by simp
  show ?thesis
    using example_strings(1) bad rows good all
      history_fails_as_a_whole [OF example_strings(1), of db_damaged "ENCRYPTION_KEY None"]
      history_fails_as_a_whole [OF example_strings(1), of db2 "ENCRYPTION_KEY None"]
    by blast
qed

text \<open>
  C2 as stated fails: the chat has two records that decrypt and one damaged record, and
  the fetch returns the error instead of the two messages.
\<close>

theorem history_skip_counterexample:
  "decrypt (ENCRYPTION_KEY None) (content row1) (msg_iv row1) = Inr (js ''hi'') \<and>
   decrypt (ENCRYPTION_KEY None) (content row2) (msg_iv row2) = Inr (js ''yo'') \<and>
   decrypt (ENCRYPTION_KEY None) (content damaged_row) (msg_iv damaged_row)
     = Inl InvalidAuthTagLength \<and>
   select_messages (messages db_damaged) chat_1_2 = [row2, row1, damaged_row] \<and>
   get_messages (ENCRYPTION_KEY None) (Some chat_1_2) db_damaged
     = Inl (HttpError 500 ''Internal server error'')"
  by (simp add: decrypt_example_rows decrypt_damaged_row select_example get_messages_damaged)

text \<open>
  C8 (as amended): a fetch that succeeds returns the messages of the chat, each once,
  in ascending order of their creation time; the identifier is not the sort key.
\<close>

theorem history_ordered_by_created_at:
  assumes "get_messages key chatId d = Inr ms"
  shows "sorted (map message_created_at ms)
       \<and> mset (map message_id ms)
           = mset (map msg_id (filter (\<lambda>r. Some (chat_id r) = chatId) (messages d)))"
proof -
  from assms obtain c where c: "chatId = Some c" "c \<noteq> []"
    and rows: "decrypt_rows key (select_messages (messages d) c) = Inr ms"
    by (auto simp: get_messages_def split: option.splits if_splits sum.splits)
  from rows have "list_all2 (decrypts_to key) (select_messages (messages d) c) ms"
    by (rule decrypt_rows_Inr)
  note cols = decrypts_to_columns [OF this]
  have "mset (map msg_id (select_messages (messages d) c))
      = mset (map msg_id (filter (\<lambda>r. chat_id r = c) (messages d)))"
    by (simp only: mset_map mset_select_messages)
  with cols c show ?thesis
    by (simp add: sorted_select_messages)
qed

theorem history_ordered_by_created_at_witness:
  "get_messages (ENCRYPTION_KEY None) (Some chat_1_2) db2
     = Inr [to_message row2 (js ''yo''), to_message row1 (js ''hi'')] \<and>
   sorted (map message_created_at [to_message row2 (js ''yo''), to_message row1 (js ''hi'')]) \<and>
   mset (map message_id [to_message row2 (js ''yo''), to_message row1 (js ''hi'')])
     = mset (map msg_id (filter (\<lambda>r. Some (chat_id r) = Some chat_1_2) (messages db2)))"
  using get_messages_example history_ordered_by_created_at [OF get_messages_example]
  by simp

text \<open>
  C8 as stated fails: the record with identifier 2 was created at an earlier time of the
  database clock than the record with identifier 1, and the fetch returns it first.
\<close>

theorem history_order_counterexample:
  "map msg_id (messages db2) = [1, 2] \<and>
   map created_at (messages db2) = [2000, 1000] \<and>
   map_sum id (map message_id) (get_messages (ENCRYPTION_KEY None) (Some chat_1_2) db2)
     = Inr [2, 1]"
  by (simp only: get_messages_example) (simp add: db2_eval row1_def row2_def to_message_def)

section \<open>Properties of the login route\<close>

text \<open>
  With a password that is a string, the login of an identifier that matches no user and
  the login of an identifier that matches a user whose password does not verify return
  the same response.
\<close>

lemma login_failures_same_for_strings:
  assumes "js_or (body_usernameOrEmail body) (body_username body) = Some ident"
    and "body_password body = JStr password"
    and "find_user us1 ident = None"
    and "find_user us2 ident = Some u" and "\<not> check password (password_hash u)"
  shows "login check signToken us1 body = login check signToken us2 body"
    and "ident \<noteq> [] \<Longrightarrow> password \<noteq> [] \<Longrightarrow>
         login check signToken us1 body = Inl (HttpError 400 ''Invalid credentials'')"
  using assms by (simp_all add: login_def bcrypt_compare_def)

text \<open>
  C9 does not hold of the code: with the body
  \<^verbatim>\<open>{"usernameOrEmail":"carol","password":12345}\<close>, whose password is a number, the
  login answers 400 \<^verbatim>\<open>Invalid credentials\<close> while no user is called \<open>carol\<close>, and 500
  \<^verbatim>\<open>Internal server error\<close> once a user is, because \<^verbatim>\<open>bcrypt.compare\<close> rejects a
  password that is not a string. The two failures differ, whatever the hash check and
  the signing function.
\<close>

theorem login_number_password_distinguishes:
  "login check signToken [alice, bob] login_carol_number
     = Inl (HttpError 400 ''Invalid credentials'')
   \<and> login check signToken [alice, bob, carol] login_carol_number
     = Inl (HttpError 500 ''Internal server error'')"
  by (simp add: login_def login_carol_number_def js_or_def truthy_str_def find_user_def
      bcrypt_compare_def alice_def bob_def carol_def js_def)

lemma login_string_password_example:
  "login compare_ex sign_ex [alice, bob] login_carol = Inl (HttpError 400 ''Invalid credentials'')"
  "login compare_ex sign_ex [alice, bob, carol] login_carol
     = Inl (HttpError 400 ''Invalid credentials'')"
  by (simp_all add: login_def login_carol_def js_or_def truthy_str_def find_user_def
      bcrypt_compare_def compare_ex_def alice_def bob_def carol_def js_def)

section \<open>Properties of the friends route\<close>

lemma count_list_distinct:
  "distinct xs \<Longrightarrow> x \<in> set xs \<Longrightarrow> count_list xs x = 1"
  by (induction xs) (auto simp: count_list_0_iff)

lemma count_list_append_one:
  "count_list (xs @ [y]) x = count_list xs x + (if x = y then 1 else 0)"
  by (induction xs) simp_all

lemma find_user_mem: "find_user us ident = Some u \<Longrightarrow> u \<in> set us"
  by (auto simp: find_user_def find_Some_iff)

lemma pg_upsert_friend_ok:
  assumes "u \<in> set (map user_id (users d))" and "f \<in> set (map user_id (users d))"
  shows "\<exists>d'. pg_upsert_friend u f d = Inr d' \<and> users d' = users d
           \<and> set (friends d') = insert (u, f) (set (friends d))
           \<and> (distinct (friends d) \<longrightarrow> distinct (friends d'))
           \<and> ((u, f) \<in> set (friends d) \<longrightarrow> d' = d)"
  using assms by (auto simp: pg_upsert_friend_def)

lemma add_friend_pg_result:
  assumes id: "js_or (body_identifier body) (body_friend_username body) = Some ident" "ident \<noteq> []"
    and found: "find_user (users d) ident = Some fr" and other: "user_id fr \<noteq> me"
    and me: "me \<in> set (map user_id (users d))"
  shows "\<exists>d'. add_friend_pg me body d
             = (Inr \<lparr>friend_id = user_id fr, friend_username = username fr\<rparr>, d')
           \<and> users d' = users d
           \<and> set (friends d') = insert (user_id fr, me) (insert (me, user_id fr) (set (friends d)))
           \<and> (distinct (friends d) \<longrightarrow> distinct (friends d'))
           \<and> ((me, user_id fr) \<in> set (friends d) \<and> (user_id fr, me) \<in> set (friends d) \<longrightarrow> d' = d)"
proof -
  from found have f: "user_id fr \<in> set (map user_id (users d))"
    using find_user_mem by fastforce
  from pg_upsert_friend_ok [OF me f] obtain d1 where
    d1: "pg_upsert_friend me (user_id fr) d = Inr d1" "users d1 = users d"
      "set (friends d1) = insert (me, user_id fr) (set (friends d))"
      "distinct (friends d) \<longrightarrow> distinct (friends d1)"
      "(me, user_id fr) \<in> set (friends d) \<longrightarrow> d1 = d"
    by blast
  from me f d1(2) have "user_id fr \<in> set (map user_id (users d1))" "me \<in> set (map user_id (users d1))"
    by simp_all
  from pg_upsert_friend_ok [OF this] obtain d2 where
    d2: "pg_upsert_friend (user_id fr) me d1 = Inr d2" "users d2 = users d1"
      "set (friends d2) = insert (user_id fr, me) (set (friends d1))"
      "distinct (friends d1) \<longrightarrow> distinct (friends d2)"
      "(user_id fr, me) \<in> set (friends d1) \<longrightarrow> d2 = d1"
    by blast
  have "add_friend_pg me body d
      = (Inr \<lparr>friend_id = user_id fr, friend_username = username fr\<rparr>, d2)"
    using id found other d1(1) d2(1) by (simp add: add_friend_pg_def)
  moreover have "users d2 = users d"
    using d1(2) d2(2) by simp
  moreover have "set (friends d2) = insert (user_id fr, me) (insert (me, user_id fr) (set (friends d)))"
    using d1(3) d2(3) by simp
  moreover have "distinct (friends d) \<longrightarrow> distinct (friends d2)"
    using d1(4) d2(4) by simp
  moreover have "(me, user_id fr) \<in> set (friends d) \<and> (user_id fr, me) \<in> set (friends d) \<longrightarrow> d2 = d"
    using d1(5) d2(5) by auto
  ultimately show ?thesis
    by blast
qed

lemma add_friend_mongo_first:
  assumes id: "js_or (body_identifier body) (body_friend_username body) = Some ident" "ident \<noteq> []"
    and found: "find_user (users d) ident = Some fr" and other: "user_id fr \<noteq> me"
    and fresh: "(me, user_id fr) \<notin> set (friends d)" "(user_id fr, me) \<notin> set (friends d)"
  shows "add_friend_mongo unique_index me body d
           = (Inr \<lparr>friend_id = user_id fr, friend_username = username fr\<rparr>,
              d\<lparr>friends := friends d @ [(me, user_id fr), (user_id fr, me)]\<rparr>)"
  using assms by (simp add: add_friend_mongo_def mongo_save_friend_def)

lemma add_friend_mongo_again:
  assumes id: "js_or (body_identifier body) (body_friend_username body) = Some ident" "ident \<noteq> []"
    and found: "find_user (users d) ident = Some fr" and other: "user_id fr \<noteq> me"
    and present: "(me, user_id fr) \<in> set (friends d)"
  shows "add_friend_mongo unique_index me body d = (Inl (HttpError 400 ''Already friends''), d)"
  using assms by (simp add: add_friend_mongo_def)

text \<open>
  C3 (as amended): for a user \<open>me\<close> and an identifier that resolves to another user.
  On the Postgres server (unique pairs in the table, \<open>me\<close> a user), the first and the
  second call both succeed, the second one changes nothing, and the table then holds
  each of the two edges exactly once. On the MongoDB server, starting without an edge
  between the two, the first call succeeds and the second call is rejected with status
  400 and the text \<^verbatim>\<open>Already friends\<close>, changing nothing; the collection then holds
  each of the two edges exactly once.
\<close>

theorem add_friend_twice:
  assumes "js_or (body_identifier body) (body_friend_username body) = Some ident" and "ident \<noteq> []"
    and "find_user (users d) ident = Some fr" and "user_id fr \<noteq> me"
  shows "(me \<in> set (map user_id (users d)) \<and> distinct (friends d) \<longrightarrow>
            (\<exists>d1. add_friend_pg me body d
                     = (Inr \<lparr>friend_id = user_id fr, friend_username = username fr\<rparr>, d1)
                 \<and> add_friend_pg me body d1
                     = (Inr \<lparr>friend_id = user_id fr, friend_username = username fr\<rparr>, d1)
                 \<and> count_list (friends d1) (me, user_id fr) = 1
                 \<and> count_list (friends d1) (user_id fr, me) = 1))
       \<and> ((me, user_id fr) \<notin> set (friends d) \<and> (user_id fr, me) \<notin> set (friends d) \<longrightarrow>
            (\<exists>d1. add_friend_mongo unique_index me body d
                     = (Inr \<lparr>friend_id = user_id fr, friend_username = username fr\<rparr>, d1)
                 \<and> add_friend_mongo unique_index me body d1
                     = (Inl (HttpError 400 ''Already friends''), d1)
                 \<and> count_list (friends d1) (me, user_id fr) = 1
                 \<and> count_list (friends d1) (user_id fr, me) = 1))"
proof (intro conjI impI)
  assume pg: "me \<in> set (map user_id (users d)) \<and> distinct (friends d)"
  then have me: "me \<in> set (map user_id (users d))" and dist: "distinct (friends d)"
    by simp_all
  from add_friend_pg_result [OF assms me] dist obtain d1 where
    d1: "add_friend_pg me body d
           = (Inr \<lparr>friend_id = user_id fr, friend_username = username fr\<rparr>, d1)"
      "users d1 = users d"
      "set (friends d1) = insert (user_id fr, me) (insert (me, user_id fr) (set (friends d)))"
      "distinct (friends d1)"
    by blast
  from assms(3) me d1(2) have found1: "find_user (users d1) ident = Some fr"
    and me1: "me \<in> set (map user_id (users d1))"
    by simp_all
  from add_friend_pg_result [OF assms(1,2) found1 assms(4) me1] d1(3) obtain d2 where
    d2: "add_friend_pg me body d1
           = (Inr \<lparr>friend_id = user_id fr, friend_username = username fr\<rparr>, d2)"
      "d2 = d1"
    by auto
  have "count_list (friends d1) (me, user_id fr) = 1" "count_list (friends d1) (user_id fr, me) = 1"
    using d1(3,4) by (simp_all add: count_list_distinct)
  with d1(1) d2 show "\<exists>d1. add_friend_pg me body d
                     = (Inr \<lparr>friend_id = user_id fr, friend_username = username fr\<rparr>, d1)
                 \<and> add_friend_pg me body d1
                     = (Inr \<lparr>friend_id = user_id fr, friend_username = username fr\<rparr>, d1)
                 \<and> count_list (friends d1) (me, user_id fr) = 1
                 \<and> count_list (friends d1) (user_id fr, me) = 1"
    by auto
next
  assume "(me, user_id fr) \<notin> set (friends d) \<and> (user_id fr, me) \<notin> set (friends d)"
  then have fresh: "(me, user_id fr) \<notin> set (friends d)" "(user_id fr, me) \<notin> set (friends d)"
    by simp_all
  let ?d1 = "d\<lparr>friends := friends d @ [(me, user_id fr), (user_id fr, me)]\<rparr>"
  have first: "add_friend_mongo unique_index me body d
      = (Inr \<lparr>friend_id = user_id fr, friend_username = username fr\<rparr>, ?d1)"
    using assms fresh by (rule add_friend_mongo_first)
  have found1: "find_user (users ?d1) ident = Some fr"
    using assms(3) by simp
  have "(me, user_id fr) \<in> set (friends ?d1)"
    by simp
  with assms(1,2) found1 assms(4)
  have again: "add_friend_mongo unique_index me body ?d1 = (Inl (HttpError 400 ''Already friends''), ?d1)"
    by (rule add_friend_mongo_again)
  have "count_list (friends ?d1) (me, user_id fr) = 1" "count_list (friends ?d1) (user_id fr, me) = 1"
    using fresh assms(4) by (simp_all add: count_list_0_iff)
  with first again show "\<exists>d1. add_friend_mongo unique_index me body d
                     = (Inr \<lparr>friend_id = user_id fr, friend_username = username fr\<rparr>, d1)
                 \<and> add_friend_mongo unique_index me body d1
                     = (Inl (HttpError 400 ''Already friends''), d1)
                 \<and> count_list (friends d1) (me, user_id fr) = 1
                 \<and> count_list (friends d1) (user_id fr, me) = 1"
    by blast
qed

lemma add_bob_facts:
  "js_or (body_identifier add_bob) (body_friend_username add_bob) = Some (js ''bob'')"
  "js ''bob'' \<noteq> []"
  "find_user (users db0) (js ''bob'') = Some bob"
  "user_id bob \<noteq> 1"
  by (simp_all add: add_bob_def js_or_def truthy_str_def find_user_def db0_def alice_def bob_def
      js_def)

theorem add_friend_twice_witness:
  "js_or (body_identifier add_bob) (body_friend_username add_bob) = Some (js ''bob'') \<and>
   js ''bob'' \<noteq> [] \<and> find_user (users db0) (js ''bob'') = Some bob \<and> user_id bob \<noteq> 1 \<and>
   1 \<in> set (map user_id (users db0)) \<and> distinct (friends db0) \<and>
   (1, user_id bob) \<notin> set (friends db0) \<and> (user_id bob, 1) \<notin> set (friends db0) \<and>
   (\<exists>d1. add_friend_pg 1 add_bob db0
            = (Inr \<lparr>friend_id = user_id bob, friend_username = username bob\<rparr>, d1)
        \<and> add_friend_pg 1 add_bob d1
            = (Inr \<lparr>friend_id = user_id bob, friend_username = username bob\<rparr>, d1)
        \<and> count_list (friends d1) (1, user_id bob) = 1
        \<and> count_list (friends d1) (user_id bob, 1) = 1) \<and>
   (\<exists>d1. add_friend_mongo True 1 add_bob db0
            = (Inr \<lparr>friend_id = user_id bob, friend_username = username bob\<rparr>, d1)
        \<and> add_friend_mongo True 1 add_bob d1 = (Inl (HttpError 400 ''Already friends''), d1)
        \<and> count_list (friends d1) (1, user_id bob) = 1
        \<and> count_list (friends d1) (user_id bob, 1) = 1)"
proof -
  have me: "1 \<in> set (map user_id (users db0))"
    by (simp add: db0_def alice_def)
  have none: "distinct (friends db0)" "(1, user_id bob) \<notin> set (friends db0)"
    "(user_id bob, 1) \<notin> set (friends db0)"
    by (simp_all add: db0_def)
  show ?thesis
    using add_bob_facts me none
      add_friend_twice [OF add_bob_facts, where unique_index = True]
    by blast
qed

text \<open>
  C3 as stated fails on the MongoDB server: the second call with the same pair returns
  the error \<^verbatim>\<open>Already friends\<close>. The two edges are there once each all the same.
\<close>

theorem add_friend_twice_mongo_counterexample:
  "fst (add_friend_mongo True 1 add_bob db0) = Inr \<lparr>friend_id = 2, friend_username = js ''bob''\<rparr> \<and>
   fst (add_friend_mongo True 1 add_bob (snd (add_friend_mongo True 1 add_bob db0)))
     = Inl (HttpError 400 ''Already friends'') \<and>
   friends (snd (add_friend_mongo True 1 add_bob (snd (add_friend_mongo True 1 add_bob db0))))
     = [(1, 2), (2, 1)]"
proof -
  have first: "add_friend_mongo True 1 add_bob db0
      = (Inr \<lparr>friend_id = 2, friend_username = js ''bob''\<rparr>, db0\<lparr>friends := [(1, 2), (2, 1)]\<rparr>)"
    using add_friend_mongo_first [OF add_bob_facts, of True]
    by (simp add: db0_def bob_def)
  have "find_user (users (db0\<lparr>friends := [(1, 2), (2, 1)]\<rparr>)) (js ''bob'') = Some bob"
    using add_bob_facts(3) by simp
  from add_friend_mongo_again [OF add_bob_facts(1,2) this add_bob_facts(4), of True]
  have "add_friend_mongo True 1 add_bob (db0\<lparr>friends := [(1, 2), (2, 1)]\<rparr>)
      = (Inl (HttpError 400 ''Already friends''), db0\<lparr>friends := [(1, 2), (2, 1)]\<rparr>)"
    by (simp add: bob_def)
  with first show ?thesis
    by simp
qed

end
